theory Spec2Isabelle
  imports Main "HOL-Library.Word"
begin

section \<open>JavaScript values used by the client\<close>

text \<open>
  A JavaScript string is a sequence of UTF-16 code units. ASCII literals of the source
  are written with \<open>js\<close>.
\<close>

type_synonym code_unit = "16 word"

type_synonym js_string = "code_unit list"

definition js :: "string \<Rightarrow> js_string" where
  "js s = map (\<lambda>c. of_nat (of_char c)) s"

text \<open>
  The values a job identifier or an event's \<open>data\<close> property can hold here:
  \<open>undefined\<close>, \<open>null\<close> or a string.
\<close>

datatype jsval = JUndefined | JNull | JStr js_string

text \<open>Truthiness, as \<open>!x\<close>, \<open>x || y\<close> and \<open>if (x)\<close> test it.\<close>

fun truthy :: "jsval \<Rightarrow> bool" where
  "truthy JUndefined = False"
| "truthy JNull = False"
| "truthy (JStr s) = (s \<noteq> [])"

text \<open>String conversion, as a template literal or \<open>+\<close> with a string performs it.\<close>

fun to_string :: "jsval \<Rightarrow> js_string" where
  "to_string JUndefined = js ''undefined''"
| "to_string JNull = js ''null''"
| "to_string (JStr s) = s"

text \<open>
  \<open>String.prototype.trim\<close> strips WhiteSpace and LineTerminator code units from both
  ends (ECMAScript: TAB, VT, FF, SP, NBSP, ZWNBSP, the Space\_Separator category, LF, CR,
  LS, PS).
\<close>

definition is_js_whitespace :: "code_unit \<Rightarrow> bool" where
  "is_js_whitespace c \<longleftrightarrow>
     c \<in> {0x0009, 0x000A, 0x000B, 0x000C, 0x000D, 0x0020, 0x00A0, 0x1680,
          0x2000, 0x2001, 0x2002, 0x2003, 0x2004, 0x2005, 0x2006, 0x2007, 0x2008,
          0x2009, 0x200A, 0x2028, 0x2029, 0x202F, 0x205F, 0x3000, 0xFEFF}"

definition trim :: "js_string \<Rightarrow> js_string" where
  "trim s = rev (dropWhile is_js_whitespace (rev (dropWhile is_js_whitespace s)))"

text \<open>Decimal rendering of a number, as \<open>`${res.status}`\<close> yields for an integer status.\<close>

fun digits :: "nat \<Rightarrow> nat list" where
  "digits n = (if n < 10 then [n] else digits (n div 10) @ [n mod 10])"

declare digits.simps [simp del]

definition decimal :: "nat \<Rightarrow> js_string" where
  "decimal n = map (\<lambda>d. of_nat (48 + d)) (digits n)"

record js_error =
  err_name :: js_string
  err_message :: js_string

text \<open>\<open>String(e)\<close> for an error object (Error.prototype.toString).\<close>

definition error_to_string :: "js_error \<Rightarrow> js_string" where
  "error_to_string e =
     (if err_name e = [] then err_message e
      else if err_message e = [] then err_name e
      else err_name e @ js '': '' @ err_message e)"


section \<open>The stream manager (useEventSource)\<close>

text \<open>
  The events a browser dispatches at an EventSource: the native \<open>open\<close> and \<open>error\<close>
  events, which are plain events without a \<open>data\<close> property, and one message event per
  server-sent event, typed by the server's \<open>event:\<close> field and carrying its data.
\<close>

datatype sse_event = Native_open | Native_error | Message string js_string

fun event_type :: "sse_event \<Rightarrow> string" where
  "event_type Native_open = ''open''"
| "event_type Native_error = ''error''"
| "event_type (Message t d) = t"

fun event_data :: "sse_event \<Rightarrow> jsval" where
  "event_data Native_open = JUndefined"
| "event_data Native_error = JUndefined"
| "event_data (Message t d) = JStr d"

text \<open>
  The \<open>handlers\<close> object passed to \<open>start\<close>: which of the five callbacks the caller
  supplied. A call of a supplied callback is recorded as a value of \<open>callback\<close>, which
  the caller then interprets (\<open>app_callback\<close> below for the application).
\<close>

record handlers =
  has_open :: bool
  has_chunk :: bool
  has_error :: bool
  has_done :: bool
  has_onerror :: bool

datatype callback =
    Cb_open
  | Cb_chunk jsval
  | Cb_error jsval
  | Cb_done
  | Cb_onerror

text \<open>
  The closures \<open>start\<close> installs on the EventSource, in the order it installs them.
  \<open>es.onerror\<close> is the event handler of type \<open>error\<close>, so it runs for every event of
  that type, after the listeners added before it was set.
\<close>

datatype listener = On_open | On_chunk | On_done | On_error | On_native_error

record event_source =
  es_url :: js_string
  es_closed :: bool
  es_handlers :: handlers
  es_listeners :: "(string \<times> listener) list"

text \<open>
  The two refs of the hook, and every EventSource constructed so far; an EventSource is
  identified by its position in \<open>sources\<close>.
\<close>

record stream_manager =
  esRef :: "nat option"
  finishedRef :: bool
  sources :: "event_source list"

definition initial_manager :: stream_manager where
  "initial_manager = \<lparr>esRef = None, finishedRef = False, sources = []\<rparr>"

definition close_source :: "nat \<Rightarrow> event_source list \<Rightarrow> event_source list" where
  "close_source i ss = (if i < length ss then ss[i := (ss ! i)\<lparr>es_closed := True\<rparr>] else ss)"

text \<open>
  \<open>stop\<close>: the flag is set first, whatever \<open>esRef\<close> holds. \<open>close()\<close> does not throw, so
  the \<open>try\<close> around it has no other branch.
\<close>

definition stop :: "stream_manager \<Rightarrow> stream_manager" where
  "stop m =
     (let m1 = m\<lparr>finishedRef := True\<rparr>
      in case esRef m1 of
           Some i \<Rightarrow> m1\<lparr>sources := close_source i (sources m1), esRef := None\<rparr>
         | None \<Rightarrow> m1)"

text \<open>
  \<open>new EventSource(url)\<close> throws a SyntaxError when the URL does not parse. That is the
  browser's doing: \<open>constructor\<close> is what the browser throws for a URL, if anything.
\<close>

type_synonym constructor = "js_string \<Rightarrow> js_error option"

definition install_listeners :: "handlers \<Rightarrow> (string \<times> listener) list" where
  "install_listeners h =
     (if has_open h then [(''open'', On_open)] else []) @
     (if has_chunk h then [(''chunk'', On_chunk)] else []) @
     [(''done'', On_done)] @
     (if has_error h then [(''error'', On_error)] else []) @
     [(''error'', On_native_error)]"

text \<open>
  \<open>start\<close>: stop what was there, clear the flag, construct the EventSource, keep it in
  \<open>esRef\<close> and install the listeners. When the constructor throws, \<open>start\<close> ends there
  with the exception: the earlier stream is stopped, the flag is cleared, and there is no
  new EventSource. The result is the new state and the exception thrown, if any.
\<close>

definition start ::
  "constructor \<Rightarrow> js_string \<Rightarrow> handlers \<Rightarrow> stream_manager \<Rightarrow> stream_manager \<times> js_error option"
where
  "start br url h m =
     (let m1 = stop m;
          m2 = m1\<lparr>finishedRef := False\<rparr>
      in case br url of
           Some e \<Rightarrow> (m2, Some e)
         | None \<Rightarrow>
             (let es = \<lparr>es_url = url, es_closed = False, es_handlers = h,
                        es_listeners = install_listeners h\<rparr>
              in (m2\<lparr>sources := sources m2 @ [es], esRef := Some (length (sources m2))\<rparr>,
                  None)))"

text \<open>
  The body of one listener of EventSource \<open>i\<close> (whose captured handlers are \<open>h\<close>) on
  event \<open>e\<close>: the new manager state and the callbacks it called.
\<close>

fun run_listener ::
  "nat \<Rightarrow> handlers \<Rightarrow> sse_event \<Rightarrow> listener \<Rightarrow> stream_manager \<Rightarrow> stream_manager \<times> callback list"
where
  "run_listener i h e On_open m = (m, [Cb_open])"
| "run_listener i h e On_chunk m = (m, [Cb_chunk (event_data e)])"
| "run_listener i h e On_done m =
     (m\<lparr>finishedRef := True, sources := close_source i (sources m), esRef := None\<rparr>,
      if has_done h then [Cb_done] else [])"
| "run_listener i h e On_error m =
     (if finishedRef m then (m, [])
      else (m, [Cb_error (if truthy (event_data e) then event_data e
                          else JStr (js ''Streaming error''))]))"
| "run_listener i h e On_native_error m =
     (if finishedRef m then (m, [])
      else (m, if has_onerror h then [Cb_onerror] else []))"

text \<open>Listeners run in the order of their installation, each on the state the last left.\<close>

fun run_listeners ::
  "nat \<Rightarrow> handlers \<Rightarrow> sse_event \<Rightarrow> (string \<times> listener) list \<Rightarrow> stream_manager
     \<Rightarrow> stream_manager \<times> callback list"
where
  "run_listeners i h e [] m = (m, [])"
| "run_listeners i h e ((t, l) # ls) m =
     (if t = event_type e
      then (let (m1, cs1) = run_listener i h e l m;
                (m2, cs2) = run_listeners i h e ls m1
            in (m2, cs1 @ cs2))
      else run_listeners i h e ls m)"

text \<open>
  \<open>fire\<close> runs the listeners of EventSource \<open>i\<close> whatever its state. \<open>dispatch\<close> is
  what a browser does: an EventSource whose readyState is CLOSED is dispatched no event.
  \<open>fail_connection\<close> is the browser giving up on a connection: it sets the readyState
  to CLOSED itself and then fires \<open>error\<close>.
\<close>

definition fire :: "nat \<Rightarrow> sse_event \<Rightarrow> stream_manager \<Rightarrow> stream_manager \<times> callback list" where
  "fire i e m =
     (if i < length (sources m)
      then run_listeners i (es_handlers (sources m ! i)) e (es_listeners (sources m ! i)) m
      else (m, []))"

definition dispatch :: "nat \<Rightarrow> sse_event \<Rightarrow> stream_manager \<Rightarrow> stream_manager \<times> callback list" where
  "dispatch i e m =
     (if i < length (sources m) \<and> \<not> es_closed (sources m ! i) then fire i e m else (m, []))"

definition fail_connection :: "nat \<Rightarrow> stream_manager \<Rightarrow> stream_manager \<times> callback list" where
  "fail_connection i m =
     (if i < length (sources m) \<and> \<not> es_closed (sources m ! i)
      then fire i Native_error (m\<lparr>sources := close_source i (sources m)\<rparr>)
      else (m, []))"

text \<open>
  What can happen to a stream manager: its two operations and the browser's events. An
  exception thrown by \<open>start\<close> goes to its caller; the manager is left in the state
  \<open>start\<close> had reached.
\<close>

datatype action =
    Start js_string handlers
  | Stop
  | Dispatch nat sse_event
  | Fail nat

fun step :: "constructor \<Rightarrow> action \<Rightarrow> stream_manager \<Rightarrow> stream_manager \<times> callback list" where
  "step br (Start url h) m = (fst (start br url h m), [])"
| "step br Stop m = (stop m, [])"
| "step br (Dispatch i e) m = dispatch i e m"
| "step br (Fail i) m = fail_connection i m"

fun run :: "constructor \<Rightarrow> action list \<Rightarrow> stream_manager \<Rightarrow> stream_manager \<times> callback list" where
  "run br [] m = (m, [])"
| "run br (a # as) m =
     (let (m1, cs1) = step br a m; (m2, cs2) = run br as m1 in (m2, cs1 @ cs2))"

definition open_sources :: "stream_manager \<Rightarrow> nat list" where
  "open_sources m = filter (\<lambda>i. \<not> es_closed (sources m ! i)) [0..<length (sources m)]"

section \<open>The backend API (lib/api.js)\<close>

text \<open>
  \<open>import.meta.env.VITE_BACKEND_URL\<close> is a string or undefined, the message of the
  TypeError that destructuring \<open>null\<close> raises is the engine's own, and so is what the
  EventSource constructor throws: all three come from the environment.
\<close>

record environment =
  VITE_BACKEND_URL :: jsval
  null_destructure_message :: js_string
  event_source_constructor :: constructor

definition BACKEND_URL :: "environment \<Rightarrow> js_string" where
  "BACKEND_URL env =
     (if truthy (VITE_BACKEND_URL env) then to_string (VITE_BACKEND_URL env)
      else js ''http://localhost:8000'')"

text \<open>
  A request as \<open>fetch\<close> is given it. The body is \<open>JSON.stringify({ prompt })\<close> or
  \<open>JSON.stringify({ jobId })\<close>, kept as the object it serialises.
\<close>

datatype request_body = Body_prompt js_string | Body_jobId jsval

record request =
  req_url :: js_string
  req_method :: string
  req_content_type :: string
  req_body :: request_body

text \<open>
  A parsed JSON body, as far as \<open>const { jobId } = ...\<close> can tell bodies apart:
  \<open>null\<close>, an object with the value of its \<open>jobId\<close> property (\<open>undefined\<close> when it has
  none), or a value on which the property is undefined (a number, a string, an array).
  The backend's identifiers are strings; an identifier of another type is not modelled.
\<close>

datatype json = Json_null | Json_object jsval | Json_other

text \<open>
  A response: its status and what \<open>res.json()\<close> settles to (a rejection when the body
  is not JSON). \<open>fetch\<close> itself resolves with a response or rejects.
\<close>

record response =
  status :: nat
  json_body :: "js_error + json"

definition ok :: "response \<Rightarrow> bool" where
  "ok res \<longleftrightarrow> 200 \<le> status res \<and> status res \<le> 299"

datatype fetch_outcome = Rejected js_error | Responded response

type_synonym network = "request \<Rightarrow> fetch_outcome"

definition createJob_request :: "environment \<Rightarrow> js_string \<Rightarrow> request" where
  "createJob_request env p =
     \<lparr>req_url = BACKEND_URL env @ js ''/generate'', req_method = ''POST'',
      req_content_type = ''application/json'', req_body = Body_prompt p\<rparr>"

definition createJob_settle :: "fetch_outcome \<Rightarrow> js_error + json" where
  "createJob_settle out =
     (case out of
        Rejected e \<Rightarrow> Inl e
      | Responded res \<Rightarrow>
          if \<not> ok res
          then Inl \<lparr>err_name = js ''Error'',
                    err_message = js ''Generate failed: '' @ decimal (status res)\<rparr>
          else json_body res)"

text \<open>\<open>createJob\<close>: the requests it issues, and what its promise settles to.\<close>

definition createJob :: "environment \<Rightarrow> js_string \<Rightarrow> network \<Rightarrow> request list \<times> (js_error + json)" where
  "createJob env p net =
     (let req = createJob_request env p in ([req], createJob_settle (net req)))"

definition streamUrl :: "environment \<Rightarrow> jsval \<Rightarrow> js_string" where
  "streamUrl env jid = BACKEND_URL env @ js ''/stream/'' @ to_string jid"

definition stopJob_request :: "environment \<Rightarrow> jsval \<Rightarrow> request" where
  "stopJob_request env jid =
     \<lparr>req_url = BACKEND_URL env @ js ''/stop'', req_method = ''POST'',
      req_content_type = ''application/json'', req_body = Body_jobId jid\<rparr>"

definition stopJob_settle :: "fetch_outcome \<Rightarrow> js_error + unit" where
  "stopJob_settle out = (case out of Rejected e \<Rightarrow> Inl e | Responded res \<Rightarrow> Inr ())"

definition stopJob :: "environment \<Rightarrow> jsval \<Rightarrow> network \<Rightarrow> request list \<times> (js_error + unit)" where
  "stopJob env jid net =
     (let req = stopJob_request env jid in ([req], stopJob_settle (net req)))"


section \<open>The application (App)\<close>

text \<open>
  The state of the component: its React state and the stream manager's refs.

  Modelled from the spec: the hook \<open>useLocalStorage\<close> (\<open>hooks/useLocalStorage.js\<close>) is
  missing, and the specification leaves the web UI out of its scope. As \<open>App\<close> uses them,
  \<open>prompt\<close> and \<open>html\<close> are state cells like those of \<open>useState\<close>, whose setter takes a
  value or an updater; they are modelled so.
\<close>

record app =
  prompt :: js_string
  html :: js_string
  jobId :: jsval
  isGenerating :: bool
  error :: js_string
  startedAt :: "nat option"
  finishedAt :: "nat option"
  es :: stream_manager

definition initial_app :: "js_string \<Rightarrow> js_string \<Rightarrow> app" where
  "initial_app p h =
     \<lparr>prompt = p, html = h, jobId = JNull, isGenerating = False, error = [],
      startedAt = None, finishedAt = None, es = initial_manager\<rparr>"

text \<open>The handlers object \<open>handleGenerate\<close> passes to \<open>es.start\<close>: no \<open>open\<close> callback.\<close>

definition app_handlers :: handlers where
  "app_handlers =
     \<lparr>has_open = False, has_chunk = True, has_error = True, has_done = True,
      has_onerror = True\<rparr>"

text \<open>The bodies of those callbacks; \<open>now\<close> is what \<open>Date.now()\<close> returns at the call.\<close>

fun app_callback :: "nat \<Rightarrow> callback \<Rightarrow> app \<Rightarrow> app" where
  "app_callback now Cb_open a = a"
| "app_callback now (Cb_chunk d) a = a\<lparr>html := html a @ to_string d\<rparr>"
| "app_callback now (Cb_error msg) a =
     a\<lparr>error := (if error a \<noteq> [] then error a
                 else if truthy msg then to_string msg
                 else js ''Streaming error'')\<rparr>"
| "app_callback now Cb_done a = a\<lparr>isGenerating := False, finishedAt := Some now\<rparr>"
| "app_callback now Cb_onerror a =
     a\<lparr>error := (if error a \<noteq> [] then error a else js ''Connection lost while streaming.''),
       isGenerating := False, finishedAt := Some now\<rparr>"

definition app_callbacks :: "nat \<Rightarrow> callback list \<Rightarrow> app \<Rightarrow> app" where
  "app_callbacks now cs a = fold (app_callback now) cs a"

text \<open>
  An event of the browser reaching the application. The listeners touch only the refs
  and the callbacks only the React state, so the callbacks are applied to the state the
  listeners leave.
\<close>

definition app_dispatch :: "nat \<Rightarrow> nat \<Rightarrow> sse_event \<Rightarrow> app \<Rightarrow> app" where
  "app_dispatch now i e a =
     (let (m, cs) = dispatch i e (es a) in app_callbacks now cs (a\<lparr>es := m\<rparr>))"

text \<open>A sequence of events, each with the clock at its arrival and the EventSource it is for.\<close>

fun app_events :: "(nat \<times> nat \<times> sse_event) list \<Rightarrow> app \<Rightarrow> app" where
  "app_events [] a = a"
| "app_events ((now, i, e) # evs) a = app_events evs (app_dispatch now i e a)"

text \<open>
  \<open>handleGenerate\<close> up to its \<open>await\<close>: the new state, and the request \<open>createJob\<close> has
  issued (none when the prompt is rejected and the function returns).
\<close>

definition handleGenerate_begin :: "environment \<Rightarrow> nat \<Rightarrow> app \<Rightarrow> app \<times> request option" where
  "handleGenerate_begin env now a =
     (if trim (prompt a) = []
      then (a\<lparr>error := js ''Please describe the business context first.''\<rparr>, None)
      else (a\<lparr>error := [], html := [], finishedAt := None, isGenerating := True,
               startedAt := Some now\<rparr>,
            Some (createJob_request env (prompt a))))"

text \<open>The \<open>catch\<close> block of \<open>handleGenerate\<close>.\<close>

definition handleGenerate_catch :: "js_error \<Rightarrow> nat \<Rightarrow> app \<Rightarrow> app" where
  "handleGenerate_catch e now a =
     a\<lparr>error := (if err_message e \<noteq> [] then err_message e else error_to_string e),
       isGenerating := False, finishedAt := Some now, es := stop (es a)\<rparr>"

text \<open>
  The rest of the \<open>try\<close> block once the job identifier is there: \<open>setJobId\<close>, then
  \<open>es.start\<close>; what \<open>es.start\<close> throws is caught like any other exception.
\<close>

definition handleGenerate_open :: "environment \<Rightarrow> jsval \<Rightarrow> nat \<Rightarrow> app \<Rightarrow> app" where
  "handleGenerate_open env jid now a =
     (let a1 = a\<lparr>jobId := jid\<rparr>;
          (m, thrown) = start (event_source_constructor env) (streamUrl env jid) app_handlers (es a1)
      in case thrown of
           None \<Rightarrow> a1\<lparr>es := m\<rparr>
         | Some e \<Rightarrow> handleGenerate_catch e now (a1\<lparr>es := m\<rparr>))"

text \<open>\<open>handleGenerate\<close> from the settlement of the request on.\<close>

definition handleGenerate_settle :: "environment \<Rightarrow> fetch_outcome \<Rightarrow> nat \<Rightarrow> app \<Rightarrow> app" where
  "handleGenerate_settle env out now a =
     (case createJob_settle out of
        Inl e \<Rightarrow> handleGenerate_catch e now a
      | Inr Json_null \<Rightarrow>
          handleGenerate_catch
            \<lparr>err_name = js ''TypeError'', err_message = null_destructure_message env\<rparr> now a
      | Inr (Json_object jid) \<Rightarrow> handleGenerate_open env jid now a
      | Inr Json_other \<Rightarrow> handleGenerate_open env JUndefined now a)"

text \<open>
  The whole of \<open>handleGenerate\<close>. Between the request and its settlement the function
  is suspended and the browser goes on delivering events: \<open>during\<close> are the events that
  arrive in that time, on whatever EventSource is still open. \<open>t0\<close> and \<open>t1\<close> are the clock
  before and after the request. It returns the requests issued.
\<close>

definition handleGenerate ::
  "environment \<Rightarrow> network \<Rightarrow> nat \<Rightarrow> (nat \<times> nat \<times> sse_event) list \<Rightarrow> nat \<Rightarrow> app
     \<Rightarrow> app \<times> request list"
where
  "handleGenerate env net t0 during t1 a =
     (case handleGenerate_begin env t0 a of
        (a1, None) \<Rightarrow> (a1, [])
      | (a1, Some req) \<Rightarrow>
          (handleGenerate_settle env (net req) t1 (app_events during a1), [req]))"

text \<open>
  \<open>handleStop\<close> up to its \<open>await\<close>: nothing changes yet; without a job identifier the
  function returns, else \<open>stopJob\<close> has issued its request.
\<close>

definition handleStop_begin :: "environment \<Rightarrow> app \<Rightarrow> app \<times> request option" where
  "handleStop_begin env a =
     (if \<not> truthy (jobId a) then (a, None)
      else (a, Some (stopJob_request env (jobId a))))"

text \<open>
  \<open>handleStop\<close> from the settlement of the request on: a rejection of \<open>stopJob\<close> is
  caught by an empty \<open>catch\<close>, and the rest runs either way.
\<close>

definition handleStop_settle :: "fetch_outcome \<Rightarrow> nat \<Rightarrow> app \<Rightarrow> app" where
  "handleStop_settle out now a =
     (let a1 = (case stopJob_settle out of Inl e \<Rightarrow> a | Inr u \<Rightarrow> a)
      in a1\<lparr>es := stop (es a1), isGenerating := False, finishedAt := Some now\<rparr>)"

text \<open>
  The whole of \<open>handleStop\<close>, with nothing else running while it awaits. It returns the
  requests issued.
\<close>

definition handleStop :: "environment \<Rightarrow> network \<Rightarrow> nat \<Rightarrow> app \<Rightarrow> app \<times> request list" where
  "handleStop env net now a =
     (case handleStop_begin env a of
        (a1, None) \<Rightarrow> (a1, [])
      | (a1, Some req) \<Rightarrow> (handleStop_settle (net req) now a1, [req]))"

section \<open>Invariants of the stream manager\<close>

text \<open>An open EventSource is the one \<open>esRef\<close> holds.\<close>

definition single_open :: "stream_manager \<Rightarrow> bool" where
  "single_open m \<longleftrightarrow>
     (\<forall>i < length (sources m). \<not> es_closed (sources m ! i) \<longrightarrow> esRef m = Some i)"

text \<open>Every EventSource carries the listeners \<open>start\<close> installs for its handlers.\<close>

definition installed :: "stream_manager \<Rightarrow> bool" where
  "installed m \<longleftrightarrow>
     (\<forall>i < length (sources m).
        es_listeners (sources m ! i) = install_listeners (es_handlers (sources m ! i)))"

text \<open>The state the \<open>done\<close> listener of EventSource \<open>i\<close> leaves.\<close>

definition ended :: "nat \<Rightarrow> stream_manager \<Rightarrow> stream_manager" where
  "ended i m = m\<lparr>finishedRef := True, sources := close_source i (sources m), esRef := None\<rparr>"

text \<open>The two callbacks that report an error, and the action that opens a stream.\<close>

fun is_error_callback :: "callback \<Rightarrow> bool" where
  "is_error_callback (Cb_error msg) = True"
| "is_error_callback Cb_onerror = True"
| "is_error_callback c = False"

fun is_start :: "action \<Rightarrow> bool" where
  "is_start (Start url h) = True"
| "is_start a = False"

text \<open>
  Events fired one after the other, each at the EventSource named with it, without the
  browser's check of the readyState.
\<close>

fun fire_all :: "(nat \<times> sse_event) list \<Rightarrow> stream_manager \<Rightarrow> stream_manager \<times> callback list" where
  "fire_all [] m = (m, [])"
| "fire_all ((i, e) # evs) m =
     (let (m1, cs1) = fire i e m; (m2, cs2) = fire_all evs m1 in (m2, cs1 @ cs2))"

text \<open>
  Two states with the same EventSources, all of them closed: they can differ in the
  finished flag and in what \<open>esRef\<close> holds, nothing else.
\<close>

definition alike :: "stream_manager \<Rightarrow> stream_manager \<Rightarrow> bool" where
  "alike m m' \<longleftrightarrow>
     m' = m \<or> (list_all es_closed (sources m) \<and> sources m' = sources m)"

text \<open>
  A sequence of callback calls reaching the application, each with the clock at the call,
  and the message an error notification stands for.
\<close>

fun app_notify :: "(nat \<times> callback) list \<Rightarrow> app \<Rightarrow> app" where
  "app_notify [] a = a"
| "app_notify ((now, c) # cs) a = app_notify cs (app_callback now c a)"

fun notification_message :: "callback \<Rightarrow> js_string" where
  "notification_message (Cb_error msg) =
     (if truthy msg then to_string msg else js ''Streaming error'')"
| "notification_message Cb_onerror = js ''Connection lost while streaming.''"
| "notification_message c = []"

text \<open>The text the \<open>chunk\<close> callbacks among some callback calls append, in their order.\<close>

fun chunk_text :: "callback list \<Rightarrow> js_string" where
  "chunk_text [] = []"
| "chunk_text (Cb_chunk d # cs) = to_string d @ chunk_text cs"
| "chunk_text (c # cs) = chunk_text cs"

text \<open>
  The text that a sequence of events makes the \<open>chunk\<close> callbacks append, from a given
  state of the stream manager on: the events are dispatched one after the other, as
  \<open>app_events\<close> does.
\<close>

fun delivered_text :: "(nat \<times> nat \<times> sse_event) list \<Rightarrow> stream_manager \<Rightarrow> js_string" where
  "delivered_text [] m = []"
| "delivered_text ((now, i, e) # evs) m =
     chunk_text (snd (dispatch i e m)) @ delivered_text evs (fst (dispatch i e m))"

text \<open>The data of the \<open>chunk\<close> events among some events, in their order.\<close>

fun chunk_data :: "sse_event list \<Rightarrow> js_string" where
  "chunk_data [] = []"
| "chunk_data (Message t d # evs) = (if t = ''chunk'' then d @ chunk_data evs else chunk_data evs)"
| "chunk_data (e # evs) = chunk_data evs"

text \<open>
  EventSource \<open>i\<close> is an open stream of the application: open, with the handlers and
  the listeners that \<open>handleGenerate\<close> gives a stream.
\<close>

definition streaming :: "nat \<Rightarrow> stream_manager \<Rightarrow> bool" where
  "streaming i m \<longleftrightarrow>
     i < length (sources m) \<and> \<not> es_closed (sources m ! i) \<and>
     es_handlers (sources m ! i) = app_handlers \<and>
     es_listeners (sources m ! i) = install_listeners app_handlers"

text \<open>
  Sample inputs: a browser for which every URL parses, one for which none does and one
  that refuses \<open>http://\<close> alone (a URL with no host), an environment with no backend URL configured, a backend that answers every request with
  a given status and body, and one that cannot be reached.
\<close>

definition accepting :: constructor where
  "accepting = (\<lambda>url. None)"

definition rejecting :: constructor where
  "rejecting =
     (\<lambda>url. Some \<lparr>err_name = js ''SyntaxError'', err_message = js ''The URL is invalid.''\<rparr>)"

definition strict :: constructor where
  "strict =
     (\<lambda>url. if url = js ''http://''
        then Some \<lparr>err_name = js ''SyntaxError'', err_message = js ''The URL is invalid.''\<rparr>
        else None)"

definition sample_env :: environment where
  "sample_env =
     \<lparr>VITE_BACKEND_URL = JUndefined, null_destructure_message = js ''null'',
      event_source_constructor = accepting\<rparr>"

definition answering :: "nat \<Rightarrow> (js_error + json) \<Rightarrow> network" where
  "answering st b = (\<lambda>req. Responded \<lparr>status = st, json_body = b\<rparr>)"

definition unreachable :: network where
  "unreachable =
     (\<lambda>req. Rejected \<lparr>err_name = js ''TypeError'', err_message = js ''Failed to fetch''\<rparr>)"


section \<open>The pipeline orchestrator (backend)\<close>

text \<open>
  The backend (\<open>app.py\<close>, \<open>contract_pipeline_v3.py\<close>, \<open>config.py\<close>) is not among the
  sources; what follows is written from the specification's description of the
  Pipeline Orchestrator. Cancellation, events to subscribers and the bound on the number
  of tasks in flight are left out: the model keeps the order of the stages, the outline
  policy, the anchor-then-parallel drafting of sections, and a log of every call to the
  Generation Service and every publication to the shared context.
\<close>

text \<open>
  Modelled from the spec: the tunables of \<open>config.py\<close>, which is missing. The spec fixes
  the outline at 10 to 16 sections and speaks of a fixed bound on retries of a section,
  taken as 2 here.
\<close>

record config =
  min_sections :: nat
  max_sections :: nat
  section_retries :: nat

text \<open>Modelled from the spec: the configured values, 10 to 16 sections.\<close>

definition default_config :: config where
  "default_config = \<lparr>min_sections = 10, max_sections = 16, section_retries = 2\<rparr>"

text \<open>
  Modelled from the spec: the Generation Service as a test double. A call is for a
  stage (\<open>Draft i\<close> drafts the section at position \<open>i\<close> of the outline); the double
  answers the \<open>n\<close>-th call for a stage with a failure, a text, or a list of section titles.
\<close>

datatype stage = Infer | Guidance | Outline | First_part | Draft nat | Qc_fix

text \<open>Modelled from the spec: what the Generation Service returns for a call.\<close>

datatype reply = Failure | Text string | Titles "string list"

text \<open>Modelled from the spec: the test double itself, a function of the stage and the number of the call.\<close>

type_synonym service = "stage \<Rightarrow> nat \<Rightarrow> reply"

text \<open>Modelled from the spec: the fields of the PipelineContext, each published once.\<close>

datatype field =
    F_variables | F_notes | F_outline | F_front_matter | F_anchor | F_section nat | F_final

text \<open>Modelled from the spec: the PipelineContext, one slot for each field.\<close>

record pipeline_context =
  ctx_variables :: "string option"
  ctx_notes :: "string option"
  ctx_outline :: "string list option"
  ctx_front_matter :: "string option"
  ctx_anchor :: "(nat \<times> string) option"
  ctx_sections :: "(nat \<times> string) list"
  ctx_final_html :: "string option"

text \<open>Modelled from the spec: the empty context a job is created with.\<close>

definition empty_context :: pipeline_context where
  "empty_context =
     \<lparr>ctx_variables = None, ctx_notes = None, ctx_outline = None,
      ctx_front_matter = None, ctx_anchor = None, ctx_sections = [],
      ctx_final_html = None\<rparr>"

text \<open>
  Modelled from the spec: the call timestamps of the test double and the publications to
  the context, as one log in the order things happen: a call to the Generation Service
  is initiated, a field of the context is published. The status of a job and the job
  itself follow the spec's data model.
\<close>

datatype entry = Called stage | Published field

text \<open>Modelled from the spec: the status of a job.\<close>

datatype job_status = Pending | Running | Done | Job_error | Stopped

text \<open>Modelled from the spec: a job, as far as the orchestrator leaves it: status, context, log.\<close>

record job =
  job_status :: job_status
  job_context :: pipeline_context
  job_log :: "entry list"

text \<open>
  Modelled from the spec: stage 3's policy on the number of sections. A surplus is
  truncated from the end; a deficiency fails the job, and nothing is padded.
\<close>

definition clamp_outline :: "config \<Rightarrow> string list \<Rightarrow> string list option" where
  "clamp_outline cfg ts =
     (if length ts < min_sections cfg then None else Some (take (max_sections cfg) ts))"

text \<open>
  Modelled from the spec: a stage reads the context and, calling the Generation Service,
  either extends it or fails; its result is its log and the new context, if any. Stages 1
  to 4 are fatal on failure. Stage 1 is retried once when its reply does not parse.
\<close>

type_synonym stage_run = "pipeline_context \<Rightarrow> entry list \<times> pipeline_context option"

text \<open>Modelled from the spec: stage 1, Infer.\<close>

definition stage_infer :: "service \<Rightarrow> stage_run" where
  "stage_infer svc c =
     (case svc Infer 0 of
        Text v \<Rightarrow> ([Called Infer, Published F_variables], Some (c\<lparr>ctx_variables := Some v\<rparr>))
      | _ \<Rightarrow>
          (case svc Infer 1 of
             Text v \<Rightarrow>
               ([Called Infer, Called Infer, Published F_variables],
                Some (c\<lparr>ctx_variables := Some v\<rparr>))
           | _ \<Rightarrow> ([Called Infer, Called Infer], None)))"

text \<open>Modelled from the spec: stage 2, Guidance.\<close>

definition stage_guidance :: "service \<Rightarrow> stage_run" where
  "stage_guidance svc c =
     (case svc Guidance 0 of
        Text n \<Rightarrow> ([Called Guidance, Published F_notes], Some (c\<lparr>ctx_notes := Some n\<rparr>))
      | _ \<Rightarrow> ([Called Guidance], None))"

text \<open>Modelled from the spec: stage 3, Outline, with its policy on the count.\<close>

definition stage_outline :: "config \<Rightarrow> service \<Rightarrow> stage_run" where
  "stage_outline cfg svc c =
     (case svc Outline 0 of
        Titles ts \<Rightarrow>
          (case clamp_outline cfg ts of
             Some ts' \<Rightarrow> ([Called Outline, Published F_outline], Some (c\<lparr>ctx_outline := Some ts'\<rparr>))
           | None \<Rightarrow> ([Called Outline], None))
      | _ \<Rightarrow> ([Called Outline], None))"

text \<open>Modelled from the spec: stage 4, First Part.\<close>

definition stage_first_part :: "service \<Rightarrow> stage_run" where
  "stage_first_part svc c =
     (case svc First_part 0 of
        Text f \<Rightarrow>
          ([Called First_part, Published F_front_matter], Some (c\<lparr>ctx_front_matter := Some f\<rparr>))
      | _ \<Rightarrow> ([Called First_part], None))"

text \<open>
  Modelled from the spec: the anchor is the first substantive section of the outline, a
  literal \<open>Definitions\<close> section being skipped when it is the first.
\<close>

definition select_anchor :: "string list \<Rightarrow> nat option" where
  "select_anchor ts =
     (case ts of
        [] \<Rightarrow> None
      | t # rest \<Rightarrow>
          if t = ''Definitions'' then (case rest of [] \<Rightarrow> None | t' # rest' \<Rightarrow> Some 1)
          else Some 0)"

text \<open>
  Modelled from the spec: one section's draft, retried up to the bound. \<open>n\<close> counts the
  calls already made for the section, \<open>r\<close> the retries left.
\<close>

fun draft_section :: "service \<Rightarrow> nat \<Rightarrow> nat \<Rightarrow> nat \<Rightarrow> entry list \<times> string option" where
  "draft_section svc i n 0 =
     ([Called (Draft i)], case svc (Draft i) n of Text h \<Rightarrow> Some h | _ \<Rightarrow> None)"
| "draft_section svc i n (Suc r) =
     (case svc (Draft i) n of
        Text h \<Rightarrow> ([Called (Draft i)], Some h)
      | _ \<Rightarrow> (let (l, res) = draft_section svc i (Suc n) r in (Called (Draft i) # l, res)))"

text \<open>
  Modelled from the spec: one SectionTask of the fan-out, with its own log, which ends in
  the publication of the section when the draft succeeds.
\<close>

definition section_task :: "config \<Rightarrow> service \<Rightarrow> nat \<Rightarrow> entry list \<times> (nat \<times> string) option" where
  "section_task cfg svc i =
     (case draft_section svc i 0 (section_retries cfg) of
        (l, Some h) \<Rightarrow> (l @ [Published (F_section i)], Some (i, h))
      | (l, None) \<Rightarrow> (l, None))"

text \<open>
  Modelled from the spec: the tasks of the fan-out run concurrently, with no ordering
  guarantee between sections. \<open>interleave\<close> merges
  their logs as a schedule dictates: each pick advances the task it names by one entry
  (a pick that names no task with entries left is skipped), and what is left when the
  picks run out follows task by task. Every interleaving arises from some schedule.
\<close>

fun interleave :: "nat list \<Rightarrow> 'a list list \<Rightarrow> 'a list" where
  "interleave [] ls = concat ls"
| "interleave (p # ps) ls =
     (if p < length ls \<and> ls ! p \<noteq> []
      then hd (ls ! p) # interleave ps (ls[p := tl (ls ! p)])
      else interleave ps ls)"

text \<open>
  Modelled from the spec: stage 5. The anchor is drafted first and published; only then
  are the other sections drafted, concurrently. A failed task does not stop its
  siblings, but the stage fails if any section is left without a draft.
\<close>

definition stage_sections :: "config \<Rightarrow> service \<Rightarrow> nat list \<Rightarrow> stage_run" where
  "stage_sections cfg svc picks c =
     (case ctx_outline c of
        None \<Rightarrow> ([], None)
      | Some ts \<Rightarrow>
     (case select_anchor ts of
        None \<Rightarrow> ([], None)
      | Some a \<Rightarrow>
     (case draft_section svc a 0 (section_retries cfg) of
        (la, None) \<Rightarrow> (la, None)
      | (la, Some h) \<Rightarrow>
          (let c1 = c\<lparr>ctx_anchor := Some (a, h)\<rparr>;
               tasks = map (section_task cfg svc) (filter (\<lambda>i. i \<noteq> a) [0..<length ts]);
               lf = interleave picks (map fst tasks);
               c2 = c1\<lparr>ctx_sections := List.map_filter snd tasks\<rparr>
           in (la @ [Published F_anchor] @ lf,
               if list_all (\<lambda>t. snd t \<noteq> None) tasks then Some c2 else None)))))"

text \<open>Modelled from the spec: stage 6, a single pass whose output alone is published.\<close>

definition stage_qc :: "service \<Rightarrow> stage_run" where
  "stage_qc svc c =
     (case svc Qc_fix 0 of
        Text h \<Rightarrow> ([Called Qc_fix, Published F_final], Some (c\<lparr>ctx_final_html := Some h\<rparr>))
      | _ \<Rightarrow> ([Called Qc_fix], None))"

text \<open>
  Modelled from the spec: the orchestrator runs the stages in their fixed order, each
  on the context the last one left; the first failure ends the run, and later stages are
  not started. A run so far is its log, its context and whether it is still going.
\<close>

type_synonym progress = "entry list \<times> pipeline_context \<times> bool"

text \<open>Modelled from the spec: running the next stage, unless the run has failed.\<close>

definition then_stage :: "progress \<Rightarrow> stage_run \<Rightarrow> progress" where
  "then_stage r st =
     (case r of
        (l, c, False) \<Rightarrow> (l, c, False)
      | (l, c, True) \<Rightarrow>
          (case st c of
             (l', None) \<Rightarrow> (l @ l', c, False)
           | (l', Some c') \<Rightarrow> (l @ l', c', True)))"

text \<open>Modelled from the spec: stages 1 to 4 in their order, from the empty context.\<close>

definition front_stages :: "config \<Rightarrow> service \<Rightarrow> progress" where
  "front_stages cfg svc =
     then_stage (then_stage (then_stage (then_stage ([], empty_context, True)
       (stage_infer svc)) (stage_guidance svc)) (stage_outline cfg svc)) (stage_first_part svc)"

text \<open>
  Modelled from the spec: a whole run, from \<open>pending\<close> to \<open>done\<close> or \<open>error\<close>. \<open>picks\<close>
  is the schedule of the fan-out.
\<close>

definition run_pipeline :: "config \<Rightarrow> service \<Rightarrow> nat list \<Rightarrow> job" where
  "run_pipeline cfg svc picks =
     (case then_stage (then_stage (front_stages cfg svc) (stage_sections cfg svc picks))
             (stage_qc svc) of
        (l, c, fine) \<Rightarrow>
          \<lparr>job_status = (if fine then Done else Job_error), job_context = c, job_log = l\<rparr>)"

text \<open>\<open>before x y l\<close>: \<open>x\<close> occurs in \<open>l\<close> strictly before the first \<open>y\<close>.\<close>

definition before :: "'a \<Rightarrow> 'a \<Rightarrow> 'a list \<Rightarrow> bool" where
  "before x y l \<longleftrightarrow> x \<in> set (takeWhile (\<lambda>z. z \<noteq> y) l)"

text \<open>A sample double: a service that never fails and proposes the given titles.\<close>

definition obliging :: "string list \<Rightarrow> service" where
  "obliging ts = (\<lambda>st n. case st of Outline \<Rightarrow> Titles ts | _ \<Rightarrow> Text ''ok'')"

section \<open>Properties of the stream manager\<close>

lemma length_close_source [simp]: "length (close_source i ss) = length ss"
  by (simp add: close_source_def)

lemma nth_close_source:
  "j < length ss \<Longrightarrow>
   close_source i ss ! j = (if j = i then (ss ! j)\<lparr>es_closed := True\<rparr> else ss ! j)"
  by (simp add: close_source_def nth_list_update)

lemma stop_eq:
  "stop m =
     (case esRef m of
        Some i \<Rightarrow> m\<lparr>finishedRef := True, sources := close_source i (sources m), esRef := None\<rparr>
      | None \<Rightarrow> m\<lparr>finishedRef := True\<rparr>)"
  by (simp add: stop_def Let_def split: option.splits)

lemma stop_stop: "stop (stop m) = stop m"
  by (simp add: stop_eq split: option.splits)

lemma stop_fields:
  "finishedRef (stop m)" "esRef (stop m) = None" "length (sources (stop m)) = length (sources m)"
  by (simp_all add: stop_eq split: option.splits)

lemma stop_closes:
  "esRef m = Some i \<Longrightarrow> i < length (sources m) \<Longrightarrow> es_closed (sources (stop m) ! i)"
  by (simp add: stop_eq nth_close_source)

lemma stop_all_closed:
  "single_open m \<Longrightarrow> j < length (sources m) \<Longrightarrow> es_closed (sources (stop m) ! j)"
  by (auto simp: single_open_def stop_eq nth_close_source split: option.splits)

lemma single_open_stop: "single_open m \<Longrightarrow> single_open (stop m)"
  using stop_all_closed [of m] by (simp add: single_open_def stop_fields)

lemma start_thrown:
  "br url = Some e \<Longrightarrow> start br url h m = ((stop m)\<lparr>finishedRef := False\<rparr>, Some e)"
  by (simp add: start_def Let_def)

lemma start_opened:
  "br url = None \<Longrightarrow>
   start br url h m =
     ((stop m)\<lparr>finishedRef := False,
        sources := sources (stop m) @
          [\<lparr>es_url = url, es_closed = False, es_handlers = h,
            es_listeners = install_listeners h\<rparr>],
        esRef := Some (length (sources m))\<rparr>, None)"
  by (simp add: start_def Let_def stop_fields)

lemma single_open_start: "single_open m \<Longrightarrow> single_open (fst (start br url h m))"
proof (cases "br url")
  case None
  assume "single_open m"
  with stop_all_closed [of m] None show ?thesis
    by (auto simp: single_open_def start_opened stop_fields nth_append)
next
  case (Some e)
  assume "single_open m"
  with stop_all_closed [of m] Some show ?thesis
    by (auto simp: single_open_def start_thrown stop_fields)
qed

lemma close_source_twice [simp]: "close_source i (close_source i ss) = close_source i ss"
  by (simp add: close_source_def)

lemma ended_ended [simp]: "ended i (ended i m) = ended i m"
  by (simp add: ended_def)

lemma run_listener_effect:
  "fst (run_listener i h e l m) = m \<or> fst (run_listener i h e l m) = ended i m"
  by (cases l) (simp_all add: ended_def)

lemma run_listeners_effect:
  "fst (run_listeners i h e ls m) = m \<or> fst (run_listeners i h e ls m) = ended i m"
proof (induction ls arbitrary: m)
  case Nil
  show ?case by simp
next
  case (Cons p ls)
  obtain t l where p: "p = (t, l)" by (cases p)
  show ?case
  proof (cases "t = event_type e")
    case False
    with p Cons.IH [of m] show ?thesis by simp
  next
    case True
    have step: "fst (run_listeners i h e (p # ls) m) =
                fst (run_listeners i h e ls (fst (run_listener i h e l m)))"
      using True p by (simp add: split_beta)
    from run_listener_effect [of i h e l m] show ?thesis
    proof
      assume "fst (run_listener i h e l m) = m"
      with step Cons.IH [of m] show ?thesis by simp
    next
      assume "fst (run_listener i h e l m) = ended i m"
      with step Cons.IH [of "ended i m"] show ?thesis by simp
    qed
  qed
qed

lemma fire_effect: "fst (fire i e m) = m \<or> fst (fire i e m) = ended i m"
  using run_listeners_effect by (simp add: fire_def)

lemma single_open_ended:
  "\<forall>j < length (sources m). j \<noteq> i \<longrightarrow> es_closed (sources m ! j) \<Longrightarrow> single_open (ended i m)"
  by (auto simp: single_open_def ended_def nth_close_source)

lemma single_open_others:
  "single_open m \<Longrightarrow> i < length (sources m) \<Longrightarrow> \<not> es_closed (sources m ! i) \<Longrightarrow>
   j < length (sources m) \<Longrightarrow> j \<noteq> i \<Longrightarrow> es_closed (sources m ! j)"
  unfolding single_open_def by (metis option.inject)

lemma single_open_dispatch: "single_open m \<Longrightarrow> single_open (fst (dispatch i e m))"
proof (cases "i < length (sources m) \<and> \<not> es_closed (sources m ! i)")
  case False
  assume "single_open m"
  with False show ?thesis by (auto simp: dispatch_def)
next
  case True
  assume so: "single_open m"
  have d: "dispatch i e m = fire i e m" using True by (simp add: dispatch_def)
  have "single_open (ended i m)"
    using single_open_others [OF so] True by (intro single_open_ended) blast
  with so fire_effect [of i e m] d show ?thesis by auto
qed

lemma single_open_fail: "single_open m \<Longrightarrow> single_open (fst (fail_connection i m))"
proof (cases "i < length (sources m) \<and> \<not> es_closed (sources m ! i)")
  case False
  assume "single_open m"
  with False show ?thesis by (auto simp: fail_connection_def)
next
  case True
  assume so: "single_open m"
  let ?m1 = "m\<lparr>sources := close_source i (sources m)\<rparr>"
  have d: "fail_connection i m = fire i Native_error ?m1"
    using True by (simp add: fail_connection_def)
  have all: "\<forall>j < length (sources ?m1). es_closed (sources ?m1 ! j)"
    using single_open_others [OF so] True by (auto simp: nth_close_source)
  then have 1: "single_open ?m1" by (simp add: single_open_def)
  from all have 2: "single_open (ended i ?m1)" by (intro single_open_ended) blast
  from 1 2 fire_effect [of i Native_error ?m1] d show ?thesis by auto
qed

lemma single_open_step: "single_open m \<Longrightarrow> single_open (fst (step br a m))"
  by (cases a) (simp_all add: single_open_start single_open_stop single_open_dispatch single_open_fail)

lemma fst_run_Cons: "fst (run br (a # as) m) = fst (run br as (fst (step br a m)))"
  by (simp add: split_beta)

lemma single_open_run: "single_open m \<Longrightarrow> single_open (fst (run br as m))"
proof (induction as arbitrary: m)
  case Nil
  then show ?case by simp
next
  case (Cons a as)
  from Cons.prems have "single_open (fst (step br a m))" by (rule single_open_step)
  then have "single_open (fst (run br as (fst (step br a m))))" by (rule Cons.IH)
  then show ?case by (simp only: fst_run_Cons)
qed

lemma single_open_initial: "single_open initial_manager"
  by (simp add: single_open_def initial_manager_def)

lemma single_open_reachable: "single_open (fst (run br as initial_manager))"
  by (rule single_open_run [OF single_open_initial])


lemma installed_ended: "installed m \<Longrightarrow> installed (ended i m)"
  by (simp add: installed_def ended_def nth_close_source)

lemma installed_stop: "installed m \<Longrightarrow> installed (stop m)"
  by (auto simp: installed_def stop_eq nth_close_source split: option.splits)

lemma installed_start: "installed m \<Longrightarrow> installed (fst (start br url h m))"
proof (cases "br url")
  case None
  assume "installed m"
  with installed_stop [of m] None show ?thesis
    by (auto simp: installed_def start_opened nth_append stop_fields)
next
  case (Some e)
  assume "installed m"
  with installed_stop [of m] Some show ?thesis
    by (auto simp: installed_def start_thrown stop_fields)
qed

lemma installed_fire: "installed m \<Longrightarrow> installed (fst (fire i e m))"
  using fire_effect [of i e m] installed_ended [of m i] by auto

lemma installed_step: "installed m \<Longrightarrow> installed (fst (step br a m))"
proof (cases a)
  case (Start url h)
  assume "installed m"
  with Start show ?thesis by (simp add: installed_start)
next
  case Stop
  assume "installed m"
  with Stop show ?thesis by (simp add: installed_stop)
next
  case (Dispatch i e)
  assume "installed m"
  with Dispatch installed_fire [of m i e] show ?thesis by (simp add: dispatch_def)
next
  case (Fail i)
  assume inst: "installed m"
  then have "installed (m\<lparr>sources := close_source i (sources m)\<rparr>)"
    by (simp add: installed_def nth_close_source)
  from installed_fire [OF this] inst Fail show ?thesis by (simp add: fail_connection_def)
qed

lemma installed_run: "installed m \<Longrightarrow> installed (fst (run br as m))"
proof (induction as arbitrary: m)
  case Nil
  then show ?case by simp
next
  case (Cons a as)
  from Cons.prems have "installed (fst (step br a m))" by (rule installed_step)
  then have "installed (fst (run br as (fst (step br a m))))" by (rule Cons.IH)
  then show ?case by (simp only: fst_run_Cons)
qed

lemma installed_reachable: "installed (fst (run br as initial_manager))"
  by (rule installed_run) (simp add: installed_def initial_manager_def)

lemma run_listeners_done:
  "run_listeners i h (Message ''done'' d) (install_listeners h) m =
     (ended i m, if has_done h then [Cb_done] else [])"
  by (simp add: install_listeners_def ended_def)

lemma fire_done:
  "installed m \<Longrightarrow> i < length (sources m) \<Longrightarrow>
   fire i (Message ''done'' d) m =
     (ended i m, if has_done (es_handlers (sources m ! i)) then [Cb_done] else [])"
  by (simp add: fire_def installed_def run_listeners_done)


lemma open_sources_le_1: 
  assumes "single_open m" shows "length (open_sources m) \<le> 1"
proof -
  have d: "distinct (open_sources m)" by (simp add: open_sources_def)
  have "set (open_sources m) \<subseteq> {i. esRef m = Some i}"
    using assms by (auto simp: open_sources_def single_open_def)
  also have "\<dots> \<subseteq> (case esRef m of None \<Rightarrow> {} | Some i \<Rightarrow> {i})"
    by (auto split: option.splits)
  finally have sub: "set (open_sources m) \<subseteq> (case esRef m of None \<Rightarrow> {} | Some i \<Rightarrow> {i})" .
  have "card (set (open_sources m)) \<le> card (case esRef m of None \<Rightarrow> {} | Some i \<Rightarrow> {i})"
    by (rule card_mono [OF _ sub]) (simp split: option.splits)
  also have "\<dots> \<le> 1" by (simp split: option.splits)
  finally show ?thesis using d by (simp add: distinct_card)
qed

lemma open_sources_start:
  assumes "single_open m"
  shows "open_sources (fst (start br url h m)) =
           (if br url = None then [length (sources m)] else [])"
proof -
  have closed: "\<forall>j < length (sources m). es_closed (sources (stop m) ! j)"
    using stop_all_closed [OF assms] by simp
  have len: "length (sources (stop m)) = length (sources m)" by (rule stop_fields)
  have old: "filter (\<lambda>i. \<not> es_closed ((sources (stop m) @ [x]) ! i)) [0..<length (sources m)] = []"
    for x
    using closed len by (auto simp: filter_empty_conv nth_append)
  have none: "filter (\<lambda>i. \<not> es_closed (sources (stop m) ! i)) [0..<length (sources m)] = []"
    using closed by (auto simp: filter_empty_conv)
  show ?thesis
  proof (cases "br url")
    case None
    with old len show ?thesis by (simp add: open_sources_def start_opened nth_append)
  next
    case (Some e)
    with none len show ?thesis by (simp add: open_sources_def start_thrown)
  qed
qed

lemma finished_run_listeners:
  "finishedRef m \<Longrightarrow>
   finishedRef (fst (run_listeners i h e ls m)) \<and>
   (\<forall>c \<in> set (snd (run_listeners i h e ls m)). \<not> is_error_callback c)"
proof (induction ls arbitrary: m)
  case Nil
  then show ?case by simp
next
  case (Cons p ls)
  obtain t l where p: "p = (t, l)" by (cases p)
  show ?case
  proof (cases "t = event_type e")
    case False
    with p Cons.IH [OF Cons.prems] show ?thesis by simp
  next
    case True
    have 1: "finishedRef (fst (run_listener i h e l m))"
      using Cons.prems by (cases l) simp_all
    have 2: "\<forall>c \<in> set (snd (run_listener i h e l m)). \<not> is_error_callback c"
      using Cons.prems by (cases l) simp_all
    from Cons.IH [OF 1] 2 True p show ?thesis by (auto simp: split_beta)
  qed
qed

lemma finished_fire:
  "finishedRef m \<Longrightarrow>
   finishedRef (fst (fire i e m)) \<and> (\<forall>c \<in> set (snd (fire i e m)). \<not> is_error_callback c)"
  using finished_run_listeners by (simp add: fire_def)

lemma finished_fire_all:
  "finishedRef m \<Longrightarrow> \<forall>c \<in> set (snd (fire_all evs m)). \<not> is_error_callback c"
proof (induction evs arbitrary: m)
  case Nil
  show ?case by simp
next
  case (Cons p evs)
  obtain i e where p: "p = (i, e)" by (cases p)
  from finished_fire [OF Cons.prems, of i e] Cons.IH [of "fst (fire i e m)"] p
  show ?case by (auto simp: split_beta)
qed

lemma all_closed_step:
  "list_all es_closed (sources m) \<Longrightarrow> \<not> is_start a \<Longrightarrow>
   snd (step br a m) = [] \<and> list_all es_closed (sources (fst (step br a m)))"
  by (cases a) (auto simp: dispatch_def fail_connection_def stop_eq list_all_length
      nth_close_source split: option.splits)

lemma all_closed_run:
  "list_all es_closed (sources m) \<Longrightarrow> \<forall>a \<in> set as. \<not> is_start a \<Longrightarrow>
   snd (run br as m) = [] \<and> list_all es_closed (sources (fst (run br as m)))"
proof (induction as arbitrary: m)
  case Nil
  then show ?case by simp
next
  case (Cons a as)
  from all_closed_step [of m a] Cons.prems
  have 1: "snd (step br a m) = []" and 2: "list_all es_closed (sources (fst (step br a m)))" by auto
  from Cons.IH [OF 2] Cons.prems 1 show ?case by (simp add: split_beta)
qed

lemma all_closed_stop: "single_open m \<Longrightarrow> list_all es_closed (sources (stop m))"
  using stop_all_closed [of m] by (simp add: list_all_length stop_fields)

lemma all_closed_ended:
  "single_open m \<Longrightarrow> i < length (sources m) \<Longrightarrow> \<not> es_closed (sources m ! i) \<Longrightarrow>
   list_all es_closed (sources (ended i m))"
  using single_open_others [of m i]
  by (auto simp: list_all_length ended_def nth_close_source)

lemma alike_sources: "alike m m' \<Longrightarrow> sources m' = sources m"
  by (auto simp: alike_def)

lemma closed_dispatch:
  "list_all es_closed (sources m) \<Longrightarrow> dispatch i e m = (m, [])"
  by (auto simp: dispatch_def list_all_length)

lemma closed_fail:
  "list_all es_closed (sources m) \<Longrightarrow> fail_connection i m = (m, [])"
  by (auto simp: fail_connection_def list_all_length)

lemma close_source_closed: "list_all es_closed ss \<Longrightarrow> close_source i ss = ss"
  by (simp add: close_source_def list_all_length list_update_same_conv)

lemma stop_all_closed_eq:
  "list_all es_closed (sources m) \<Longrightarrow> stop m = m\<lparr>finishedRef := True, esRef := None\<rparr>"
  by (simp add: stop_eq close_source_closed split: option.splits)

lemma stop_alike:
  assumes "list_all es_closed (sources m)" "sources m' = sources m"
  shows "stop m' = stop m"
proof -
  have "stop m' = m'\<lparr>finishedRef := True, esRef := None\<rparr>"
    using assms by (intro stop_all_closed_eq) simp
  moreover have "stop m = m\<lparr>finishedRef := True, esRef := None\<rparr>"
    using assms(1) by (rule stop_all_closed_eq)
  moreover have "m'\<lparr>finishedRef := True, esRef := None\<rparr> = m\<lparr>finishedRef := True, esRef := None\<rparr>"
    using assms(2) by (intro stream_manager.equality) simp_all
  ultimately show ?thesis by simp
qed

lemma alike_stop: "list_all es_closed (sources m) \<Longrightarrow> alike m (stop m)"
  by (simp add: alike_def stop_all_closed_eq)

lemma alike_step:
  assumes "alike m m'"
  shows "snd (step br a m') = snd (step br a m) \<and> alike (fst (step br a m)) (fst (step br a m'))"
proof (cases "m' = m")
  case True
  then show ?thesis by (simp add: alike_def)
next
  case False
  with assms have closed: "list_all es_closed (sources m)" and same: "sources m' = sources m"
    by (auto simp: alike_def)
  then have closed': "list_all es_closed (sources m')" by simp
  have stop: "stop m' = stop m" using closed same by (rule stop_alike)
  show ?thesis
  proof (cases a)
    case (Start url h)
    have "start br url h m' = start br url h m" by (simp add: start_def stop)
    with Start show ?thesis by (simp add: alike_def)
  next
    case Stop
    with stop show ?thesis by (simp add: alike_def)
  next
    case (Dispatch i e)
    with closed_dispatch [OF closed] closed_dispatch [OF closed'] assms show ?thesis by simp
  next
    case (Fail i)
    with closed_fail [OF closed] closed_fail [OF closed'] assms show ?thesis by simp
  qed
qed

lemma alike_run:
  "alike m m' \<Longrightarrow>
   snd (run br as m') = snd (run br as m) \<and> alike (fst (run br as m)) (fst (run br as m'))"
proof (induction as arbitrary: m m')
  case Nil
  then show ?case by simp
next
  case (Cons a as)
  from alike_step [OF Cons.prems, of br a]
  have 1: "snd (step br a m') = snd (step br a m)"
    and 2: "alike (fst (step br a m)) (fst (step br a m'))"
    by simp_all
  from Cons.IH [OF 2] 1 show ?case by (simp add: split_beta)
qed

lemma open_sources_Nil: "open_sources m = [] \<longleftrightarrow> list_all es_closed (sources m)"
  by (auto simp: open_sources_def filter_empty_conv list_all_length)

lemma stop_None: "esRef m = None \<Longrightarrow> stop m = m\<lparr>finishedRef := True\<rparr>"
  by (simp add: stop_eq)

lemma closed_ended:
  "j < length (sources m) \<Longrightarrow> es_closed (sources m ! j) \<Longrightarrow>
   j < length (sources (ended i m)) \<and> es_closed (sources (ended i m) ! j)"
  by (simp add: ended_def nth_close_source)

lemma closed_fire:
  assumes "j < length (sources m)" "es_closed (sources m ! j)"
  shows "j < length (sources (fst (fire i e m))) \<and> es_closed (sources (fst (fire i e m)) ! j)"
  using fire_effect [of i e m] closed_ended [OF assms, of i] assms by auto

lemma closed_stop:
  "j < length (sources m) \<Longrightarrow> es_closed (sources m ! j) \<Longrightarrow>
   j < length (sources (stop m)) \<and> es_closed (sources (stop m) ! j)"
  by (simp add: stop_eq nth_close_source split: option.splits)

lemma closed_start:
  assumes "j < length (sources m)" "es_closed (sources m ! j)"
  shows "j < length (sources (fst (start br url h m))) \<and>
         es_closed (sources (fst (start br url h m)) ! j)"
proof (cases "br url")
  case None
  with closed_stop [OF assms] show ?thesis by (simp add: start_opened nth_append)
next
  case (Some e)
  with closed_stop [OF assms] show ?thesis by (simp add: start_thrown)
qed

lemma closed_step:
  assumes "j < length (sources m)" "es_closed (sources m ! j)"
  shows "j < length (sources (fst (step br a m))) \<and> es_closed (sources (fst (step br a m)) ! j)"
proof (cases a)
  case (Start url h)
  with closed_start [OF assms] show ?thesis by simp
next
  case Stop
  with closed_stop [OF assms] show ?thesis by simp
next
  case (Dispatch i e)
  with closed_fire [OF assms] assms show ?thesis by (simp add: dispatch_def)
next
  case (Fail i)
  let ?m1 = "m\<lparr>sources := close_source i (sources m)\<rparr>"
  have "j < length (sources ?m1)" "es_closed (sources ?m1 ! j)"
    using assms by (simp_all add: nth_close_source)
  from closed_fire [OF this] assms Fail show ?thesis by (simp add: fail_connection_def)
qed

lemma closed_run:
  "j < length (sources m) \<Longrightarrow> es_closed (sources m ! j) \<Longrightarrow>
   j < length (sources (fst (run br as m))) \<and> es_closed (sources (fst (run br as m)) ! j)"
proof (induction as arbitrary: m)
  case Nil
  then show ?case by simp
next
  case (Cons a as)
  from closed_step [OF Cons.prems, where a = a and br = br] Cons.IH [of "fst (step br a m)"]
  show ?case by (simp only: fst_run_Cons)
qed

lemma closed_for_good:
  assumes "list_all es_closed (sources m)" "j < length (sources m)"
  shows "dispatch j e (fst (run br as m)) = (fst (run br as m), [])"
proof -
  from assms have "es_closed (sources m ! j)" by (simp add: list_all_length)
  from closed_run [OF assms(2) this, where as = as and br = br] show ?thesis by (simp add: dispatch_def)
qed

section \<open>Properties of the application\<close>

lemma js_Nil_iff [simp]: "js s = [] \<longleftrightarrow> s = []"
  by (simp add: js_def)

lemma trim_empty_iff: "trim s = [] \<longleftrightarrow> list_all is_js_whitespace s"
proof
  assume "list_all is_js_whitespace s"
  then have "\<forall>c \<in> set s. is_js_whitespace c" by (simp only: list_all_iff)
  then have d: "dropWhile is_js_whitespace s = []" by (simp only: dropWhile_eq_Nil_conv)
  show "trim s = []" by (simp add: trim_def d)
next
  assume t: "trim s = []"
  show "list_all is_js_whitespace s"
  proof (rule ccontr)
    assume "\<not> list_all is_js_whitespace s"
    then have ne: "dropWhile is_js_whitespace s \<noteq> []"
      by (simp add: list_all_iff)
    then have "\<not> is_js_whitespace (hd (dropWhile is_js_whitespace s))" by (rule hd_dropWhile)
    moreover have "hd (dropWhile is_js_whitespace s) \<in> set (rev (dropWhile is_js_whitespace s))"
      using ne by simp
    ultimately have "dropWhile is_js_whitespace (rev (dropWhile is_js_whitespace s)) \<noteq> []"
      by (metis dropWhile_eq_Nil_conv)
    with t show False by (simp add: trim_def)
  qed
qed

lemma start_new_source:
  "br url = None \<Longrightarrow>
   esRef (fst (start br url h m)) = Some (length (sources m)) \<and>
   length (sources (fst (start br url h m))) = Suc (length (sources m)) \<and>
   sources (fst (start br url h m)) ! length (sources m) =
     \<lparr>es_url = url, es_closed = False, es_handlers = h, es_listeners = install_listeners h\<rparr>"
  by (simp add: start_opened stop_fields nth_append)

lemma generate_failed_nonempty: "js ''Generate failed: '' @ x \<noteq> []"
  by (simp add: js_def)

text \<open>What the callbacks and the events of the browser leave alone.\<close>

lemma app_callback_keeps:
  "jobId (app_callback now c a) = jobId a \<and> es (app_callback now c a) = es a \<and>
   prompt (app_callback now c a) = prompt a"
  by (cases c) simp_all

lemma app_callbacks_keeps:
  "jobId (app_callbacks now cs a) = jobId a \<and> es (app_callbacks now cs a) = es a \<and>
   prompt (app_callbacks now cs a) = prompt a"
  unfolding app_callbacks_def
proof (induction cs arbitrary: a)
  case Nil
  show ?case by simp
next
  case (Cons c cs)
  from Cons.IH [of "app_callback now c a"] app_callback_keeps [of now c a]
  show ?case by simp
qed

lemma app_dispatch_keeps:
  "jobId (app_dispatch now i e a) = jobId a \<and> prompt (app_dispatch now i e a) = prompt a \<and>
   es (app_dispatch now i e a) = fst (dispatch i e (es a))"
proof -
  obtain m cs where d: "dispatch i e (es a) = (m, cs)" by (cases "dispatch i e (es a)") auto
  from app_callbacks_keeps [of now cs "a\<lparr>es := m\<rparr>"] d show ?thesis
    by (simp add: app_dispatch_def)
qed

lemma app_events_keeps:
  "jobId (app_events evs a) = jobId a \<and> prompt (app_events evs a) = prompt a"
proof (induction evs arbitrary: a)
  case Nil
  show ?case by simp
next
  case (Cons p evs)
  obtain t i e where p: "p = (t, i, e)" by (cases p)
  from Cons.IH [of "app_dispatch t i e a"] app_dispatch_keeps [of t i e a] p
  show ?case by simp
qed

lemma handleGenerate_blank:
  "list_all is_js_whitespace (prompt a) \<Longrightarrow>
   handleGenerate env net tb during ts a =
     (a\<lparr>error := js ''Please describe the business context first.''\<rparr>, [])"
  by (simp add: handleGenerate_def handleGenerate_begin_def trim_empty_iff)

text \<open>
  A \<open>handleGenerate\<close> that gets its job identifier and whose EventSource is constructed:
  the state the events during the request have left, with the identifier and the stream.
\<close>

lemma handleGenerate_opened:
  assumes "\<not> list_all is_js_whitespace (prompt a)"
    and "net (createJob_request env (prompt a)) = Responded res"
    and "ok res" and "json_body res = Inr (Json_object jid)"
    and "event_source_constructor env (streamUrl env jid) = None"
    and "a1 = app_events during
               (a\<lparr>error := [], html := [], finishedAt := None, isGenerating := True,
                  startedAt := Some tb\<rparr>)"
  shows "handleGenerate env net tb during ts a =
     (a1\<lparr>jobId := jid,
         es := fst (start (event_source_constructor env) (streamUrl env jid) app_handlers (es a1))\<rparr>,
      [createJob_request env (prompt a)])"
  using assms(1-5) unfolding assms(6)
  by (simp add: handleGenerate_def handleGenerate_begin_def trim_empty_iff
      handleGenerate_settle_def createJob_settle_def handleGenerate_open_def Let_def
      split_beta start_opened)

lemma handleGenerate_not_ok:
  assumes "\<not> list_all is_js_whitespace (prompt a)"
    and "net (createJob_request env (prompt a)) = Responded res"
    and "\<not> ok res"
  shows "jobId (fst (handleGenerate env net tb during ts a)) = jobId a \<and>
         error (fst (handleGenerate env net tb during ts a)) =
           js ''Generate failed: '' @ decimal (status res) \<and>
         snd (handleGenerate env net tb during ts a) = [createJob_request env (prompt a)]"
  using assms
    app_events_keeps [of during "a\<lparr>error := [], html := [], finishedAt := None,
      isGenerating := True, startedAt := Some tb\<rparr>"]
  by (simp add: handleGenerate_def handleGenerate_begin_def trim_empty_iff
      handleGenerate_settle_def createJob_settle_def handleGenerate_catch_def
      generate_failed_nonempty)

lemma notification_message_nonempty:
  "is_error_callback c \<Longrightarrow> notification_message c \<noteq> []"
  by (cases c) (auto simp: js_def elim: truthy.elims)

lemma error_kept_by_callback:
  "error a \<noteq> [] \<Longrightarrow> error (app_callback now c a) = error a"
  by (cases c) simp_all

lemma error_kept_by_notify: "error a \<noteq> [] \<Longrightarrow> error (app_notify tcs a) = error a"
proof (induction tcs arbitrary: a)
  case Nil
  show ?case by simp
next
  case (Cons p tcs)
  obtain t c where p: "p = (t, c)" by (cases p)
  from Cons.prems have "error (app_callback t c a) = error a" by (rule error_kept_by_callback)
  with Cons.prems Cons.IH [of "app_callback t c a"] p show ?case by simp
qed

lemma error_set_by_callback:
  "error a = [] \<Longrightarrow> is_error_callback c \<Longrightarrow>
   error (app_callback now c a) = notification_message c"
  by (cases c) simp_all

lemma error_kept_by_callbacks:
  "error a \<noteq> [] \<Longrightarrow> error (app_callbacks now cs a) = error a"
  unfolding app_callbacks_def
proof (induction cs arbitrary: a)
  case Nil
  show ?case by simp
next
  case (Cons c cs)
  from Cons.prems have "error (app_callback now c a) = error a" by (rule error_kept_by_callback)
  with Cons.prems Cons.IH [of "app_callback now c a"] show ?case by simp
qed

lemma error_kept_by_dispatch:
  assumes "error a \<noteq> []"
  shows "error (app_dispatch now i e a) = error a"
proof -
  obtain m cs where d: "dispatch i e (es a) = (m, cs)" by (cases "dispatch i e (es a)") auto
  have "error (app_callbacks now cs (a\<lparr>es := m\<rparr>)) = error (a\<lparr>es := m\<rparr>)"
    using assms by (intro error_kept_by_callbacks) simp
  with d show ?thesis by (simp add: app_dispatch_def)
qed

lemma error_kept_by_events: "error a \<noteq> [] \<Longrightarrow> error (app_events evs a) = error a"
proof (induction evs arbitrary: a)
  case Nil
  show ?case by simp
next
  case (Cons p evs)
  obtain t i e where p: "p = (t, i, e)" by (cases p)
  from Cons.prems have "error (app_dispatch t i e a) = error a" by (rule error_kept_by_dispatch)
  with Cons.prems Cons.IH [of "app_dispatch t i e a"] p show ?case by simp
qed

lemma handleStop_truthy:
  "truthy (jobId a) \<Longrightarrow>
   handleStop env net now a =
     (a\<lparr>es := stop (es a), isGenerating := False, finishedAt := Some now\<rparr>,
      [stopJob_request env (jobId a)])"
  by (simp add: handleStop_def handleStop_begin_def handleStop_settle_def Let_def
      split: sum.splits)

lemma app_dispatch_all_closed:
  "list_all es_closed (sources (es a)) \<Longrightarrow> app_dispatch now i e a = a"
  by (simp add: app_dispatch_def closed_dispatch app_callbacks_def)

lemma app_events_all_closed:
  "list_all es_closed (sources (es a)) \<Longrightarrow> app_events evs a = a"
proof (induction evs)
  case Nil
  show ?case by simp
next
  case (Cons p evs)
  obtain t i e where "p = (t, i, e)" by (cases p)
  with Cons show ?case by (simp add: app_dispatch_all_closed)
qed

text \<open>
  A stop by the user is not reported as an error: once \<open>handleStop\<close> has run, no event
  of the browser changes the application's state, its error message included.
\<close>

lemma handleStop_then_silent:
  assumes "es a = fst (run br pre initial_manager)" and "truthy (jobId a)"
  shows "app_events evs (fst (handleStop env net now a)) = fst (handleStop env net now a)"
proof -
  have "single_open (es a)" unfolding assms(1) by (rule single_open_reachable)
  then have "list_all es_closed (sources (stop (es a)))" by (rule all_closed_stop)
  then have "list_all es_closed (sources (es (fst (handleStop env net now a))))"
    using assms(2) by (simp add: handleStop_truthy)
  then show ?thesis by (rule app_events_all_closed)
qed

text \<open>
  The displayed HTML grows by what the \<open>chunk\<close> callbacks append and by nothing else:
  after any events, on any EventSources, it is what it was followed by the text delivered.
\<close>

lemma html_app_callbacks: "html (app_callbacks now cs a) = html a @ chunk_text cs"
  unfolding app_callbacks_def
proof (induction cs arbitrary: a)
  case Nil
  show ?case by simp
next
  case (Cons c cs)
  from Cons.IH [of "app_callback now c a"] show ?case by (cases c) simp_all
qed

lemma html_app_dispatch:
  "html (app_dispatch now i e a) = html a @ chunk_text (snd (dispatch i e (es a)))"
proof -
  obtain m cs where d: "dispatch i e (es a) = (m, cs)" by (cases "dispatch i e (es a)") auto
  from html_app_callbacks [of now cs "a\<lparr>es := m\<rparr>"] d show ?thesis
    by (simp add: app_dispatch_def)
qed

lemma html_app_events: "html (app_events evs a) = html a @ delivered_text evs (es a)"
proof (induction evs arbitrary: a)
  case Nil
  show ?case by simp
next
  case (Cons p evs)
  obtain t i e where p: "p = (t, i, e)" by (cases p)
  from Cons.IH [of "app_dispatch t i e a"] html_app_dispatch [of t i e a]
    app_dispatch_keeps [of t i e a] p
  show ?case by simp
qed

text \<open>
  On an open EventSource with the application's handlers, a \<open>chunk\<close> event appends its
  data, a \<open>done\<close> event closes the EventSource, and no other event touches the HTML or
  the EventSource.
\<close>

lemma fire_app_listeners:
  "run_listeners i app_handlers e (install_listeners app_handlers) m =
     (if event_type e = ''done'' then (ended i m, [Cb_done])
      else if event_type e = ''chunk'' then (m, [Cb_chunk (event_data e)])
      else if event_type e = ''error'' \<and> \<not> finishedRef m
        then (m, [Cb_error (if truthy (event_data e) then event_data e
                            else JStr (js ''Streaming error'')), Cb_onerror])
      else (m, []))"
  by (simp add: install_listeners_def app_handlers_def ended_def)

lemma chunk_event_data:
  "event_type e = ''chunk'' \<Longrightarrow> to_string (event_data e) = chunk_data [e]"
  by (cases e) simp_all

lemma dispatch_streaming:
  assumes "streaming i m"
  shows "chunk_text (snd (dispatch i e m)) = chunk_data [e] \<or> event_type e = ''done''"
    and "event_type e \<noteq> ''done'' \<Longrightarrow> fst (dispatch i e m) = m"
    and "event_type e = ''done'' \<Longrightarrow>
           chunk_text (snd (dispatch i e m)) = [] \<and> i < length (sources (fst (dispatch i e m))) \<and>
           es_closed (sources (fst (dispatch i e m)) ! i)"
proof -
  have d: "dispatch i e m = run_listeners i app_handlers e (install_listeners app_handlers) m"
    using assms by (simp add: streaming_def dispatch_def fire_def)
  show "chunk_text (snd (dispatch i e m)) = chunk_data [e] \<or> event_type e = ''done''"
    unfolding d fire_app_listeners by (cases e) auto
  show "event_type e \<noteq> ''done'' \<Longrightarrow> fst (dispatch i e m) = m"
    unfolding d fire_app_listeners by simp
  show "event_type e = ''done'' \<Longrightarrow>
           chunk_text (snd (dispatch i e m)) = [] \<and> i < length (sources (fst (dispatch i e m))) \<and>
           es_closed (sources (fst (dispatch i e m)) ! i)"
    unfolding d fire_app_listeners using assms
    by (simp add: ended_def streaming_def nth_close_source)
qed

lemma chunk_data_Cons: "chunk_data (e # evs) = chunk_data [e] @ chunk_data evs"
  by (cases e) simp_all

lemma delivered_closed:
  "i < length (sources m) \<Longrightarrow> es_closed (sources m ! i) \<Longrightarrow>
   delivered_text (map (\<lambda>(t, e). (t, i, e)) tes) m = []"
  by (induction tes) (auto simp: dispatch_def)

lemma delivered_all_closed:
  "list_all es_closed (sources m) \<Longrightarrow> delivered_text evs m = []"
proof (induction evs)
  case Nil
  show ?case by simp
next
  case (Cons p evs)
  obtain t i e where "p = (t, i, e)" by (cases p)
  with Cons closed_dispatch [of m i e] show ?case by simp
qed

text \<open>
  The events of an open stream of the application deliver the data of its \<open>chunk\<close>
  events up to the first \<open>done\<close>, in their order: none dropped, none twice, and nothing
  from any other event.
\<close>

lemma delivered_on_stream:
  "streaming i m \<Longrightarrow>
   delivered_text (map (\<lambda>(t, e). (t, i, e)) tes) m =
     chunk_data (takeWhile (\<lambda>e. event_type e \<noteq> ''done'') (map snd tes))"
proof (induction tes)
  case Nil
  show ?case by simp
next
  case (Cons p tes)
  obtain t e where p: "p = (t, e)" by (cases p)
  have unfold: "delivered_text (map (\<lambda>(t, e). (t, i, e)) (p # tes)) m =
      chunk_text (snd (dispatch i e m)) @
      delivered_text (map (\<lambda>(t, e). (t, i, e)) tes) (fst (dispatch i e m))"
    using p by simp
  show ?case
  proof (cases "event_type e = ''done''")
    case True
    from dispatch_streaming(3) [OF Cons.prems True]
    have 1: "chunk_text (snd (dispatch i e m)) = []"
      and 2: "i < length (sources (fst (dispatch i e m)))"
      and 3: "es_closed (sources (fst (dispatch i e m)) ! i)" by blast+
    have 4: "delivered_text (map (\<lambda>(t, e). (t, i, e)) tes) (fst (dispatch i e m)) = []"
      using 2 3 by (rule delivered_closed)
    have 5: "takeWhile (\<lambda>e. event_type e \<noteq> ''done'') (map snd (p # tes)) = []"
      using True p by simp
    show ?thesis unfolding unfold 1 4 5 by simp
  next
    case False
    from dispatch_streaming(1) [OF Cons.prems, of e] False
    have 1: "chunk_text (snd (dispatch i e m)) = chunk_data [e]" by blast
    from dispatch_streaming(2) [OF Cons.prems False]
    have 2: "fst (dispatch i e m) = m" .
    have 5: "takeWhile (\<lambda>e. event_type e \<noteq> ''done'') (map snd (p # tes)) =
             e # takeWhile (\<lambda>e. event_type e \<noteq> ''done'') (map snd tes)"
      using False p by simp
    show ?thesis
      unfolding unfold 1 2 5 Cons.IH [OF Cons.prems]
      by (rule chunk_data_Cons [symmetric])
  qed
qed

lemma length_sources_fire: "length (sources (fst (fire i e m))) = length (sources m)"
  using fire_effect [of i e m] by (auto simp: ended_def)

lemma length_sources_dispatch: "length (sources (fst (dispatch i e m))) = length (sources m)"
  by (simp add: dispatch_def length_sources_fire)

lemma length_sources_app_events:
  "length (sources (es (app_events evs a))) = length (sources (es a))"
proof (induction evs arbitrary: a)
  case Nil
  show ?case by simp
next
  case (Cons p evs)
  obtain t i e where p: "p = (t, i, e)" by (cases p)
  from Cons.IH [of "app_dispatch t i e a"] app_dispatch_keeps [of t i e a] p
  show ?case by (simp add: length_sources_dispatch)
qed

lemma streaming_start:
  "br url = None \<Longrightarrow> streaming (length (sources m)) (fst (start br url app_handlers m))"
  using start_new_source [of br url app_handlers m] by (simp add: streaming_def)

text \<open>
  What \<open>handleGenerate\<close> leaves when it has opened its stream, and what the events of
  that stream then make of the HTML. The HTML starts from what the events during the
  request delivered: nothing when none arrived, and nothing when no earlier EventSource
  was open; but the chunks of an earlier stream that was still open come first.
\<close>

lemma html_of_new_stream:
  assumes "\<not> list_all is_js_whitespace (prompt a)"
    and "net (createJob_request env (prompt a)) = Responded res"
    and "ok res" and "json_body res = Inr (Json_object jid)"
    and "event_source_constructor env (streamUrl env jid) = None"
    and "a1 = fst (handleGenerate env net tb during ts a)"
    and "sid = length (sources (es a))"
  shows "html a1 = delivered_text during (es a) \<and>
         streaming sid (es a1) \<and> esRef (es a1) = Some sid \<and>
         html (app_events (map (\<lambda>(t, e). (t, sid, e)) tes) a1) =
           delivered_text during (es a) @
           chunk_data (takeWhile (\<lambda>e. event_type e \<noteq> ''done'') (map snd tes))"
proof -
  let ?b = "a\<lparr>error := [], html := [], finishedAt := None, isGenerating := True,
                startedAt := Some tb\<rparr>"
  let ?d = "app_events during ?b"
  let ?m = "fst (start (event_source_constructor env) (streamUrl env jid) app_handlers (es ?d))"
  have a1: "a1 = ?d\<lparr>jobId := jid, es := ?m\<rparr>"
    using handleGenerate_opened [where net = net and env = env and during = during
        and tb = tb and ts = ts, OF assms(1-5) refl] assms(6)
    by simp
  have len: "length (sources (es ?d)) = sid"
    using length_sources_app_events [of during ?b] assms(7) by simp
  have h: "html a1 = delivered_text during (es a)"
    using html_app_events [of during ?b] a1 by simp
  have st: "streaming sid (es a1)"
    using streaming_start [where br = "event_source_constructor env" and url = "streamUrl env jid"
        and m = "es ?d", OF assms(5)] len a1 by simp
  have ref: "esRef (es a1) = Some sid"
    using start_new_source [where br = "event_source_constructor env" and url = "streamUrl env jid"
        and h = app_handlers and m = "es ?d", OF assms(5)] len a1 by simp
  from html_app_events [of "map (\<lambda>(t, e). (t, sid, e)) tes" a1] delivered_on_stream [OF st, of tes] h
  have "html (app_events (map (\<lambda>(t, e). (t, sid, e)) tes) a1) =
           delivered_text during (es a) @
           chunk_data (takeWhile (\<lambda>e. event_type e \<noteq> ''done'') (map snd tes))"
    by simp
  with h st ref show ?thesis by simp
qed

section \<open>Properties of the pipeline orchestrator\<close>

lemma before_append:
  assumes "y \<notin> set pre" and "x \<in> set pre"
  shows "before x y (pre @ rest)"
proof -
  have "takeWhile (\<lambda>z. z \<noteq> y) (pre @ rest) = pre @ takeWhile (\<lambda>z. z \<noteq> y) rest"
    using assms(1) by (intro takeWhile_append2) auto
  with assms(2) show ?thesis by (simp add: before_def)
qed

lemma draft_section_log:
  "set (fst (draft_section svc i n r)) = {Called (Draft i)}"
  by (induction r arbitrary: n) (simp_all add: split_beta split: reply.splits)

lemma then_stage_stopped: "then_stage (l, c, False) st = (l, c, False)"
  by (simp add: then_stage_def)

lemma then_stage_going:
  "then_stage (l, c, True) st =
     (l @ fst (st c), (case snd (st c) of None \<Rightarrow> c | Some c' \<Rightarrow> c'), snd (st c) \<noteq> None)"
  by (auto simp: then_stage_def split: prod.splits option.splits)

lemma front_stages_no_draft: "Called (Draft i) \<notin> set (fst (front_stages cfg svc))"
  by (simp add: front_stages_def then_stage_def stage_infer_def stage_guidance_def
      stage_outline_def stage_first_part_def split: reply.splits option.splits)

lemma front_stages_done:
  assumes "snd (snd (front_stages cfg svc))"
  shows "Published F_outline \<in> set (fst (front_stages cfg svc)) \<and>
         Published F_front_matter \<in> set (fst (front_stages cfg svc))"
  using assms
  by (simp add: front_stages_def then_stage_def stage_infer_def stage_guidance_def
      stage_outline_def stage_first_part_def split: reply.splits option.splits)

lemma front_stages_first_part:
  assumes "Called First_part \<in> set (fst (front_stages cfg svc))"
  shows "\<exists>ts. svc Outline 0 = Titles ts \<and> min_sections cfg \<le> length ts \<and>
              ctx_outline (fst (snd (front_stages cfg svc))) = Some (take (max_sections cfg) ts)"
  using assms
  by (simp add: front_stages_def then_stage_def stage_infer_def stage_guidance_def
      stage_outline_def stage_first_part_def clamp_outline_def
      split: reply.splits option.splits if_splits)

lemma front_stages_deficient:
  assumes "svc Outline 0 = Titles ts" "length ts < min_sections cfg"
  shows "\<not> snd (snd (front_stages cfg svc)) \<and>
         Called First_part \<notin> set (fst (front_stages cfg svc)) \<and>
         Published F_outline \<notin> set (fst (front_stages cfg svc)) \<and>
         ctx_outline (fst (snd (front_stages cfg svc))) = None"
  using assms
  by (simp add: front_stages_def then_stage_def stage_infer_def stage_guidance_def
      stage_outline_def stage_first_part_def clamp_outline_def empty_context_def
      split: reply.splits option.splits)

lemma stage_sections_shape:
  "(fst (stage_sections cfg svc picks c) = [] \<and> snd (stage_sections cfg svc picks c) = None) \<or>
   (\<exists>ts a. ctx_outline c = Some ts \<and> select_anchor ts = Some a \<and>
      ((fst (stage_sections cfg svc picks c) = fst (draft_section svc a 0 (section_retries cfg)) \<and>
        snd (stage_sections cfg svc picks c) = None) \<or>
       (\<exists>lf. fst (stage_sections cfg svc picks c) =
               fst (draft_section svc a 0 (section_retries cfg)) @ Published F_anchor # lf \<and>
             (\<forall>c'. snd (stage_sections cfg svc picks c) = Some c' \<longrightarrow>
                   ctx_outline c' = Some ts))))"
  by (auto simp: stage_sections_def Let_def split: option.splits prod.splits)

lemma stage_qc_shape:
  "Called (Draft i) \<notin> set (fst (stage_qc svc c)) \<and>
   (\<forall>c'. snd (stage_qc svc c) = Some c' \<longrightarrow> ctx_outline c' = ctx_outline c)"
  by (auto simp: stage_qc_def split: reply.splits)

text \<open>
  The log of a run that drafts anything: the front stages, then the anchor's calls, then,
  if the anchor was drafted, its publication and only after it everything else.
\<close>

lemma run_pipeline_shape:
  assumes "Called (Draft i) \<in> set (job_log (run_pipeline cfg svc picks))"
  shows "\<exists>ts a lf rest.
           ctx_outline (job_context (run_pipeline cfg svc picks)) = Some ts \<and>
           select_anchor ts = Some a \<and>
           job_log (run_pipeline cfg svc picks) =
             lf @ fst (draft_section svc a 0 (section_retries cfg)) @ rest \<and>
           Published F_outline \<in> set lf \<and> Published F_front_matter \<in> set lf \<and>
           (\<forall>j. Called (Draft j) \<notin> set lf) \<and>
           (rest = [] \<or> (\<exists>rest'. rest = Published F_anchor # rest'))"
proof -
  obtain lF cF okF where F: "front_stages cfg svc = (lF, cF, okF)"
    by (cases "front_stages cfg svc") auto
  have nodraft: "\<And>j. Called (Draft j) \<notin> set lF"
    using front_stages_no_draft [of _ cfg svc] F by simp
  show ?thesis
  proof (cases okF)
    case False
    with F have "job_log (run_pipeline cfg svc picks) = lF"
      by (simp add: run_pipeline_def then_stage_stopped)
    with assms nodraft show ?thesis by simp
  next
    case True
    with F front_stages_done [of cfg svc]
    have pub: "Published F_outline \<in> set lF" "Published F_front_matter \<in> set lF" by simp_all
    have fin: ?thesis
      if "ctx_outline (job_context (run_pipeline cfg svc picks)) = Some ts"
        and "select_anchor ts = Some a"
        and "job_log (run_pipeline cfg svc picks) =
               lF @ fst (draft_section svc a 0 (section_retries cfg)) @ rest"
        and "rest = [] \<or> (\<exists>rest'. rest = Published F_anchor # rest')"
      for ts a rest
      using that pub nodraft by blast
    obtain l5 r5 where S: "stage_sections cfg svc picks cF = (l5, r5)"
      by (cases "stage_sections cfg svc picks cF") auto
    from stage_sections_shape [of cfg svc picks cF] S
    consider (none) "l5 = []" "r5 = None"
      | (failed) ts a where "ctx_outline cF = Some ts" "select_anchor ts = Some a"
          "l5 = fst (draft_section svc a 0 (section_retries cfg))" "r5 = None"
      | (drafted) ts a lf where "ctx_outline cF = Some ts" "select_anchor ts = Some a"
          "l5 = fst (draft_section svc a 0 (section_retries cfg)) @ Published F_anchor # lf"
          "\<forall>c'. r5 = Some c' \<longrightarrow> ctx_outline c' = Some ts"
      by auto
    then show ?thesis
    proof cases
      case none
      with F True S have "job_log (run_pipeline cfg svc picks) = lF"
        by (simp add: run_pipeline_def then_stage_going then_stage_stopped)
      with assms nodraft show ?thesis by simp
    next
      case failed
      with F True S have "job_log (run_pipeline cfg svc picks) = lF @ l5"
        and "job_context (run_pipeline cfg svc picks) = cF"
        by (simp_all add: run_pipeline_def then_stage_going then_stage_stopped)
      with failed show ?thesis by (intro fin [of ts a "[]"]) simp_all
    next
      case drafted
      show ?thesis
      proof (cases r5)
        case None
        with F True S have "job_log (run_pipeline cfg svc picks) = lF @ l5"
          and "job_context (run_pipeline cfg svc picks) = cF"
          by (simp_all add: run_pipeline_def then_stage_going then_stage_stopped)
        with drafted show ?thesis by (intro fin [of ts a "Published F_anchor # lf"]) simp_all
      next
        case (Some c5)
        with drafted have o5: "ctx_outline c5 = Some ts" by simp
        from F True S Some
        have lg: "job_log (run_pipeline cfg svc picks) = lF @ l5 @ fst (stage_qc svc c5)"
          and cx: "job_context (run_pipeline cfg svc picks) =
                     (case snd (stage_qc svc c5) of None \<Rightarrow> c5 | Some c' \<Rightarrow> c')"
          by (simp_all add: run_pipeline_def then_stage_going)
        from cx o5 stage_qc_shape [of _ svc c5]
        have "ctx_outline (job_context (run_pipeline cfg svc picks)) = Some ts"
          by (auto split: option.splits)
        with lg drafted show ?thesis
          by (intro fin [of ts a "Published F_anchor # lf @ fst (stage_qc svc c5)"]) simp_all
      qed
    qed
  qed
qed

lemma set_interleave: "set (interleave ps ls) \<subseteq> \<Union> (set ` set ls)"
proof (induction ps arbitrary: ls)
  case Nil
  show ?case by auto
next
  case (Cons p ps)
  show ?case
  proof (cases "p < length ls \<and> ls ! p \<noteq> []")
    case False
    with Cons.IH [of ls] show ?thesis by auto
  next
    case True
    then have hd: "hd (ls ! p) \<in> set (ls ! p)" and mem: "ls ! p \<in> set ls" by simp_all
    have eq: "interleave (p # ps) ls = hd (ls ! p) # interleave ps (ls[p := tl (ls ! p)])"
      using True by simp
    have "set (ls[p := tl (ls ! p)]) \<subseteq> insert (tl (ls ! p)) (set ls)"
      by (rule set_update_subset_insert)
    moreover have "set (tl (ls ! p)) \<subseteq> set (ls ! p)"
      using True by (simp add: list.set_sel(2) subsetI)
    ultimately have sub: "\<Union> (set ` set (ls[p := tl (ls ! p)])) \<subseteq> \<Union> (set ` set ls)"
      using mem by auto
    have A: "hd (ls ! p) \<in> \<Union> (set ` set ls)" using hd mem by blast
    have B: "set (interleave ps (ls[p := tl (ls ! p)])) \<subseteq> \<Union> (set ` set ls)"
      using Cons.IH [of "ls[p := tl (ls ! p)]"] sub by blast
    show ?thesis unfolding eq using A B by simp
  qed
qed

lemma section_task_log:
  "set (fst (section_task cfg svc i)) \<subseteq> {Called (Draft i), Published (F_section i)}"
proof -
  obtain l r where d: "draft_section svc i 0 (section_retries cfg) = (l, r)"
    by (cases "draft_section svc i 0 (section_retries cfg)") auto
  with draft_section_log [of svc i 0 "section_retries cfg"] have "set l = {Called (Draft i)}"
    by simp
  with d show ?thesis by (cases r) (simp_all add: section_task_def)
qed

lemma stage_sections_log:
  "Called First_part \<notin> set (fst (stage_sections cfg svc picks c)) \<and>
   Published F_outline \<notin> set (fst (stage_sections cfg svc picks c))"
proof -
  have tasks: "Called First_part \<notin> set (interleave picks (map fst (map (section_task cfg svc) is))) \<and>
               Published F_outline \<notin> set (interleave picks (map fst (map (section_task cfg svc) is)))"
    for "is"
    using set_interleave [of picks "map fst (map (section_task cfg svc) is)"]
      section_task_log [of cfg svc]
    by fastforce
  have anchor: "Called First_part \<notin> set (fst (draft_section svc a 0 r)) \<and>
                Published F_outline \<notin> set (fst (draft_section svc a 0 r))" for a r
    by (simp add: draft_section_log)
  show ?thesis
    using tasks anchor
    by (auto simp: stage_sections_def Let_def split_beta split: option.splits)
qed

lemma stage_sections_outline:
  "snd (stage_sections cfg svc picks c) = Some c' \<Longrightarrow> ctx_outline c' = ctx_outline c"
  by (auto simp: stage_sections_def Let_def split: option.splits prod.splits if_splits)

lemma stage_qc_log:
  "Called First_part \<notin> set (fst (stage_qc svc c)) \<and>
   Published F_outline \<notin> set (fst (stage_qc svc c))"
  by (auto simp: stage_qc_def split: reply.splits)

text \<open>What stages 5 and 6 add to the front stages: nothing about the outline.\<close>

lemma run_pipeline_front:
  "(Called First_part \<in> set (job_log (run_pipeline cfg svc picks)) \<longleftrightarrow>
      Called First_part \<in> set (fst (front_stages cfg svc))) \<and>
   (Published F_outline \<in> set (job_log (run_pipeline cfg svc picks)) \<longleftrightarrow>
      Published F_outline \<in> set (fst (front_stages cfg svc))) \<and>
   ctx_outline (job_context (run_pipeline cfg svc picks)) =
     ctx_outline (fst (snd (front_stages cfg svc))) \<and>
   (\<not> snd (snd (front_stages cfg svc)) \<longrightarrow>
      job_status (run_pipeline cfg svc picks) = Job_error)"
proof -
  obtain lF cF okF where F: "front_stages cfg svc = (lF, cF, okF)"
    by (cases "front_stages cfg svc") auto
  show ?thesis
  proof (cases okF)
    case False
    with F show ?thesis by (simp add: run_pipeline_def then_stage_stopped)
  next
    case True
    obtain l5 r5 where S: "stage_sections cfg svc picks cF = (l5, r5)"
      by (cases "stage_sections cfg svc picks cF") auto
    note s5 = stage_sections_log [of cfg svc picks cF] stage_sections_outline [of cfg svc picks cF]
    show ?thesis
    proof (cases r5)
      case None
      with F True S s5 show ?thesis
        by (simp add: run_pipeline_def then_stage_going then_stage_stopped)
    next
      case (Some c5)
      with S s5 have o5: "ctx_outline c5 = ctx_outline cF" by simp
      from stage_qc_shape [of _ svc c5] o5
      have "ctx_outline (case snd (stage_qc svc c5) of None \<Rightarrow> c5 | Some c' \<Rightarrow> c') =
              ctx_outline cF"
        by (auto split: option.splits)
      with F True S Some s5 stage_qc_log [of svc c5] show ?thesis
        by (simp add: run_pipeline_def then_stage_going)
    qed
  qed
qed
section \<open>The claims\<close>

text \<open>
  C1. \<open>handleGenerate\<close> empties the displayed HTML before it requests the job, and the
  earlier stream is closed only by the \<open>start\<close> that follows the answer. A stream whose
  connection failed is left open by the \<open>onerror\<close> callback, which clears the generating
  flag all the same, and a chunk it delivers while the next request is pending is
  appended to the emptied HTML. Here a first generation opens stream 0, whose connection
  fails; during the request of the second generation stream 0 delivers \<open>OLD\<close>. The second
  stream then opens on \<open>OLD\<close> instead of the empty string, and after its only chunk,
  \<open>NEW\<close>, the displayed HTML is \<open>OLDNEW\<close>.
\<close>

theorem stale_chunk_precedes_new_stream:
  "\<not> isGenerating
     (app_events [(30, 0, Native_error)]
       (fst (handleGenerate sample_env (answering 200 (Inr (Json_object (JStr (js ''j1'')))))
          10 [] 20 (initial_app (js ''NDA'') [])))) \<and>
   open_sources (es
     (app_events [(30, 0, Native_error)]
       (fst (handleGenerate sample_env (answering 200 (Inr (Json_object (JStr (js ''j1'')))))
          10 [] 20 (initial_app (js ''NDA'') []))))) = [0] \<and>
   html (fst (handleGenerate sample_env (answering 200 (Inr (Json_object (JStr (js ''j2'')))))
     40 [(50, 0, Message ''chunk'' (js ''OLD''))] 60
     (app_events [(30, 0, Native_error)]
       (fst (handleGenerate sample_env (answering 200 (Inr (Json_object (JStr (js ''j1'')))))
          10 [] 20 (initial_app (js ''NDA'') [])))))) = js ''OLD'' \<and>
   open_sources (es (fst (handleGenerate sample_env (answering 200 (Inr (Json_object (JStr (js ''j2'')))))
     40 [(50, 0, Message ''chunk'' (js ''OLD''))] 60
     (app_events [(30, 0, Native_error)]
       (fst (handleGenerate sample_env (answering 200 (Inr (Json_object (JStr (js ''j1'')))))
          10 [] 20 (initial_app (js ''NDA'') []))))))) = [1] \<and>
   html (app_events [(70, 1, Message ''chunk'' (js ''NEW''))]
     (fst (handleGenerate sample_env (answering 200 (Inr (Json_object (JStr (js ''j2'')))))
     40 [(50, 0, Message ''chunk'' (js ''OLD''))] 60
     (app_events [(30, 0, Native_error)]
       (fst (handleGenerate sample_env (answering 200 (Inr (Json_object (JStr (js ''j1'')))))
          10 [] 20 (initial_app (js ''NDA'') []))))))) = js ''OLDNEW''"
  by code_simp

text \<open>
  C2. In a state the manager can reach, after \<open>stop\<close> or after a \<open>done\<close> event on the
  open stream, every EventSource is closed (the underlying one among them). Until the
  next \<open>start\<close> the browser's events call no callback at all, and the listeners
  themselves, were events fired at them all the same, call neither the \<open>error\<close> nor the
  \<open>onerror\<close> callback. Whatever happens later, a new \<open>start\<close> included, the
  EventSources closed now stay closed, and an event for one of them calls nothing.
\<close>

theorem no_error_after_clean_end:
  assumes reach: "m = fst (run br pre initial_manager)"
    and ends: "m' = stop m \<or>
               (\<exists>i d. i < length (sources m) \<and> \<not> es_closed (sources m ! i) \<and>
                      m' = fst (dispatch i (Message ''done'' d) m))"
    and post: "list_all (\<lambda>a. \<not> is_start a) post"
  shows "esRef m' = None \<and> finishedRef m' \<and>
         list_all es_closed (sources m') \<and>
         snd (run br post m') = [] \<and>
         list_all es_closed (sources (fst (run br post m'))) \<and>
         list_all (\<lambda>c. \<not> is_error_callback c) (snd (fire_all evs m')) \<and>
         (j < length (sources m') \<longrightarrow>
            dispatch j e (fst (run br later m')) = (fst (run br later m'), []))"
proof -
  have so: "single_open m" unfolding reach by (rule single_open_reachable)
  have inst: "installed m" unfolding reach by (rule installed_reachable)
  have fields: "esRef m' = None \<and> finishedRef m' \<and> list_all es_closed (sources m')"
    using ends
  proof
    assume "m' = stop m"
    with all_closed_stop [OF so] show ?thesis by (simp add: stop_fields)
  next
    assume "\<exists>i d. i < length (sources m) \<and> \<not> es_closed (sources m ! i) \<and>
                  m' = fst (dispatch i (Message ''done'' d) m)"
    then obtain i d where i: "i < length (sources m)" "\<not> es_closed (sources m ! i)"
      and m': "m' = fst (dispatch i (Message ''done'' d) m)" by blast
    from i m' fire_done [OF inst i(1), of d] have "m' = ended i m"
      by (simp add: dispatch_def)
    with all_closed_ended [OF so i] show ?thesis by (simp add: ended_def)
  qed
  then have closed: "list_all es_closed (sources m')" and fin: "finishedRef m'" by simp_all
  have nostart: "\<forall>a \<in> set post. \<not> is_start a" using post by (simp add: list_all_iff)
  have later: "dispatch j e (fst (run br later m')) = (fst (run br later m'), [])"
    if "j < length (sources m')"
    using closed that by (rule closed_for_good)
  from all_closed_run [OF closed nostart]
  have quiet: "snd (run br post m') = []"
    and still: "list_all es_closed (sources (fst (run br post m')))" by simp_all
  from finished_fire_all [OF fin, of evs]
  have guard: "list_all (\<lambda>c. \<not> is_error_callback c) (snd (fire_all evs m'))"
    by (simp add: list_all_iff)
  from fields quiet still guard later show ?thesis by blast
qed

theorem no_error_after_clean_end_witness:
  "snd (dispatch 0 Native_error
     (fst (run accepting [Start (js ''v'') app_handlers]
        (fst (dispatch 0 (Message ''done'' [])
           (fst (run accepting [Start (js ''u'') app_handlers] initial_manager))))))) = [] \<and>
   list_all es_closed
     (sources (fst (dispatch 0 (Message ''done'' [])
        (fst (run accepting [Start (js ''u'') app_handlers] initial_manager))))) \<and>
   snd (run accepting [Dispatch 0 Native_error, Fail 0, Stop]
     (fst (dispatch 0 (Message ''done'' [])
        (fst (run accepting [Start (js ''u'') app_handlers] initial_manager))))) = [] \<and>
   list_all (\<lambda>c. \<not> is_error_callback c)
     (snd (fire_all [(0, Native_error), (0, Message ''error'' (js ''boom''))]
        (fst (dispatch 0 (Message ''done'' [])
           (fst (run accepting [Start (js ''u'') app_handlers] initial_manager))))))"
proof -
  let ?m = "fst (run accepting [Start (js ''u'') app_handlers] initial_manager)"
  have 1: "0 < length (sources ?m)" by code_simp
  have 2: "\<not> es_closed (sources ?m ! 0)" by code_simp
  have 3: "list_all (\<lambda>a. \<not> is_start a) [Dispatch 0 Native_error, Fail 0, Stop]" by simp
  have ends: "fst (dispatch 0 (Message ''done'' []) ?m) = stop ?m \<or>
        (\<exists>i d. i < length (sources ?m) \<and> \<not> es_closed (sources ?m ! i) \<and>
           fst (dispatch 0 (Message ''done'' []) ?m) = fst (dispatch i (Message ''done'' d) ?m))"
    using 1 2 by blast
  have 4: "0 < length (sources (fst (dispatch 0 (Message ''done'' []) ?m)))" by code_simp
  note t = no_error_after_clean_end [where br = accepting
        and evs = "[(0, Native_error), (0, Message ''error'' (js ''boom''))]" and j = 0
        and e = Native_error and later = "[Start (js ''v'') app_handlers]", OF refl ends 3]
  let ?m' = "fst (dispatch 0 (Message ''done'' []) ?m)"
  from t 4 have "dispatch 0 Native_error (fst (run accepting [Start (js ''v'') app_handlers] ?m')) =
      (fst (run accepting [Start (js ''v'') app_handlers] ?m'), [])" by blast
  then have A: "snd (dispatch 0 Native_error (fst (run accepting [Start (js ''v'') app_handlers] ?m'))) = []"
    by (simp only: snd_conv)
  from t have B: "list_all es_closed (sources ?m')" by blast
  from t have C: "snd (run accepting [Dispatch 0 Native_error, Fail 0, Stop] ?m') = []" by blast
  from t have D: "list_all (\<lambda>c. \<not> is_error_callback c)
     (snd (fire_all [(0, Native_error), (0, Message ''error'' (js ''boom''))] ?m'))" by blast
  from A B C D show ?thesis by (intro conjI)
qed

text \<open>
  C3. Whenever a run drafts a section, the anchor's first draft call comes after the
  publication of the outline and of the front matter; and a draft call for any other
  section comes only after the anchor has been called for and its draft published.
\<close>

theorem anchor_is_drafted_first:
  assumes "Called (Draft i) \<in> set (job_log (run_pipeline cfg svc picks))"
  shows "\<exists>ts a.
           ctx_outline (job_context (run_pipeline cfg svc picks)) = Some ts \<and>
           select_anchor ts = Some a \<and>
           before (Published F_outline) (Called (Draft a)) (job_log (run_pipeline cfg svc picks)) \<and>
           before (Published F_front_matter) (Called (Draft a))
             (job_log (run_pipeline cfg svc picks)) \<and>
           (i \<noteq> a \<longrightarrow>
              before (Called (Draft a)) (Called (Draft i)) (job_log (run_pipeline cfg svc picks)) \<and>
              before (Published F_anchor) (Called (Draft i))
                (job_log (run_pipeline cfg svc picks)))"
proof -
  let ?lg = "job_log (run_pipeline cfg svc picks)"
  from run_pipeline_shape [OF assms] obtain ts a lf rest where
    ts: "ctx_outline (job_context (run_pipeline cfg svc picks)) = Some ts"
    and a: "select_anchor ts = Some a"
    and lg: "?lg = lf @ fst (draft_section svc a 0 (section_retries cfg)) @ rest"
    and pub: "Published F_outline \<in> set lf" "Published F_front_matter \<in> set lf"
    and nodraft: "\<forall>j. Called (Draft j) \<notin> set lf"
    and rest: "rest = [] \<or> (\<exists>rest'. rest = Published F_anchor # rest')"
    by blast
  let ?la = "fst (draft_section svc a 0 (section_retries cfg))"
  have la: "set ?la = {Called (Draft a)}" by (rule draft_section_log)
  from nodraft have na: "Called (Draft a) \<notin> set lf" by simp
  have 1: "before (Published F_outline) (Called (Draft a)) ?lg"
    unfolding lg using na pub(1) by (rule before_append)
  have 2: "before (Published F_front_matter) (Called (Draft a)) ?lg"
    unfolding lg using na pub(2) by (rule before_append)
  have 3: "before (Called (Draft a)) (Called (Draft i)) ?lg \<and>
           before (Published F_anchor) (Called (Draft i)) ?lg" if ne: "i \<noteq> a"
  proof -
    from ne la nodraft have out: "Called (Draft i) \<notin> set (lf @ ?la)" by auto
    with assms lg have "Called (Draft i) \<in> set rest" by auto
    with rest obtain rest' where r: "rest = Published F_anchor # rest'" by auto
    have lg': "?lg = (lf @ ?la @ [Published F_anchor]) @ rest'" by (simp add: lg r)
    have notin: "Called (Draft i) \<notin> set (lf @ ?la @ [Published F_anchor])" using out by simp
    have "Called (Draft a) \<in> set (lf @ ?la @ [Published F_anchor])" using la by simp
    from before_append [OF notin this, of rest']
    have A: "before (Called (Draft a)) (Called (Draft i)) ?lg" by (simp only: lg')
    have "Published F_anchor \<in> set (lf @ ?la @ [Published F_anchor])" by simp
    from before_append [OF notin this, of rest']
    have B: "before (Published F_anchor) (Called (Draft i)) ?lg" by (simp only: lg')
    from A B show ?thesis ..
  qed
  from ts a 1 2 3 show ?thesis by blast
qed

theorem anchor_is_drafted_first_witness:
  "before (Published F_outline) (Called (Draft 1))
     (job_log (run_pipeline default_config (obliging (''Definitions'' # replicate 11 ''S''))
        [3, 3, 0, 0, 1])) \<and>
   before (Called (Draft 1)) (Called (Draft 4))
     (job_log (run_pipeline default_config (obliging (''Definitions'' # replicate 11 ''S''))
        [3, 3, 0, 0, 1])) \<and>
   before (Published F_anchor) (Called (Draft 4))
     (job_log (run_pipeline default_config (obliging (''Definitions'' # replicate 11 ''S''))
        [3, 3, 0, 0, 1]))"
proof -
  let ?r = "run_pipeline default_config (obliging (''Definitions'' # replicate 11 ''S''))
        [3, 3, 0, 0, 1]"
  have mem: "Called (Draft 4) \<in> set (job_log ?r)" by code_simp
  have out: "ctx_outline (job_context ?r) = Some (''Definitions'' # replicate 11 ''S'')"
    by code_simp
  have anc: "select_anchor (''Definitions'' # replicate 11 ''S'') = Some 1" by code_simp
  from anchor_is_drafted_first [OF mem] obtain ts a where
    ts: "ctx_outline (job_context ?r) = Some ts" and a: "select_anchor ts = Some a"
    and 1: "before (Published F_outline) (Called (Draft a)) (job_log ?r)"
    and 2: "4 \<noteq> a \<longrightarrow> before (Called (Draft a)) (Called (Draft 4)) (job_log ?r) \<and>
              before (Published F_anchor) (Called (Draft 4)) (job_log ?r)"
    by blast
  from ts out have "ts = ''Definitions'' # replicate 11 ''S''" by simp
  with a anc have "a = 1" by simp
  with 1 2 show ?thesis by simp
qed

text \<open>
  C4. A reply with fewer sections than the minimum fails the job: stage 4 is never
  called and no outline is published, none is padded. Otherwise the outline that is
  published, and that stage 4 finds in the context, is the reply cut to its first
  \<open>max_sections\<close> titles, so its length lies between the minimum and the maximum (10 and 16
  as configured).
\<close>

theorem outline_is_clamped:
  "min_sections default_config = 10 \<and> max_sections default_config = 16 \<and>
   (clamp_outline cfg ts = Some ts' \<and> min_sections cfg \<le> max_sections cfg \<longrightarrow>
      ts' = take (max_sections cfg) ts \<and>
      min_sections cfg \<le> length ts' \<and> length ts' \<le> max_sections cfg) \<and>
   (length ts < min_sections cfg \<longrightarrow> clamp_outline cfg ts = None) \<and>
   (Called First_part \<in> set (job_log (run_pipeline cfg svc picks)) \<longrightarrow>
      (\<exists>us. svc Outline 0 = Titles us \<and> min_sections cfg \<le> length us \<and>
            ctx_outline (job_context (run_pipeline cfg svc picks)) =
              Some (take (max_sections cfg) us))) \<and>
   (svc Outline 0 = Titles ts \<and> length ts < min_sections cfg \<longrightarrow>
      job_status (run_pipeline cfg svc picks) = Job_error \<and>
      Called First_part \<notin> set (job_log (run_pipeline cfg svc picks)) \<and>
      Published F_outline \<notin> set (job_log (run_pipeline cfg svc picks)) \<and>
      ctx_outline (job_context (run_pipeline cfg svc picks)) = None)"
proof (intro conjI impI)
  show "min_sections default_config = 10" "max_sections default_config = 16"
    by (simp_all add: default_config_def)
next
  assume h: "clamp_outline cfg ts = Some ts' \<and> min_sections cfg \<le> max_sections cfg"
  then show "ts' = take (max_sections cfg) ts"
    by (auto simp: clamp_outline_def split: if_splits)
  from h show "min_sections cfg \<le> length ts'" "length ts' \<le> max_sections cfg"
    by (auto simp: clamp_outline_def split: if_splits)
next
  assume "length ts < min_sections cfg"
  then show "clamp_outline cfg ts = None" by (simp add: clamp_outline_def)
next
  assume "Called First_part \<in> set (job_log (run_pipeline cfg svc picks))"
  with run_pipeline_front [of cfg svc picks]
  have "Called First_part \<in> set (fst (front_stages cfg svc))" by simp
  from front_stages_first_part [OF this] run_pipeline_front [of cfg svc picks]
  show "\<exists>us. svc Outline 0 = Titles us \<and> min_sections cfg \<le> length us \<and>
            ctx_outline (job_context (run_pipeline cfg svc picks)) =
              Some (take (max_sections cfg) us)"
    by auto
next
  assume h: "svc Outline 0 = Titles ts \<and> length ts < min_sections cfg"
  then have d: "\<not> snd (snd (front_stages cfg svc)) \<and>
         Called First_part \<notin> set (fst (front_stages cfg svc)) \<and>
         Published F_outline \<notin> set (fst (front_stages cfg svc)) \<and>
         ctx_outline (fst (snd (front_stages cfg svc))) = None"
    using front_stages_deficient [of svc ts cfg] by blast
  with run_pipeline_front [of cfg svc picks]
  show "job_status (run_pipeline cfg svc picks) = Job_error"
    and "Called First_part \<notin> set (job_log (run_pipeline cfg svc picks))"
    and "Published F_outline \<notin> set (job_log (run_pipeline cfg svc picks))"
    and "ctx_outline (job_context (run_pipeline cfg svc picks)) = None"
    by simp_all
qed

theorem outline_is_clamped_witness:
  "ctx_outline (job_context (run_pipeline default_config (obliging (replicate 20 ''S'')) [])) =
     Some (replicate 16 ''S'') \<and>
   job_status (run_pipeline default_config (obliging (replicate 9 ''S'')) [1]) = Job_error \<and>
   Called First_part \<notin> set (job_log (run_pipeline default_config (obliging (replicate 9 ''S'')) [1])) \<and>
   clamp_outline default_config (replicate 9 ''S'') = None"
proof -
  let ?big = "obliging (replicate 20 ''S'')"
  let ?small = "obliging (replicate 9 ''S'')"
  note big = outline_is_clamped [where cfg = default_config and svc = ?big and picks = "[]"
      and ts = "[]" and ts' = "[]"]
  note small = outline_is_clamped [where cfg = default_config and svc = ?small and picks = "[1]"
      and ts = "replicate 9 ''S''" and ts' = "[]"]
  have called: "Called First_part \<in> set (job_log (run_pipeline default_config ?big []))"
    by code_simp
  with big obtain us where us: "?big Outline 0 = Titles us"
    and out: "ctx_outline (job_context (run_pipeline default_config ?big [])) =
                Some (take (max_sections default_config) us)"
    by blast
  from us have "us = replicate 20 ''S''" by (simp add: obliging_def)
  with out have A: "ctx_outline (job_context (run_pipeline default_config ?big [])) =
      Some (replicate 16 ''S'')"
    by (simp add: default_config_def)
  have few: "?small Outline 0 = Titles (replicate 9 ''S'') \<and>
             length (replicate 9 ''S'') < min_sections default_config"
    by (simp add: obliging_def default_config_def)
  from small few have B: "job_status (run_pipeline default_config ?small [1]) = Job_error"
    and C: "Called First_part \<notin> set (job_log (run_pipeline default_config ?small [1]))"
    by blast+
  from small few have D: "clamp_outline default_config (replicate 9 ''S'') = None" by blast
  from A B C D show ?thesis by (intro conjI)
qed

text \<open>
  C5. \<open>createJob\<close> issues exactly one request, a POST to \<open>/generate\<close> whose body carries
  the prompt. When the response's status is ok it returns what \<open>res.json()\<close> gives, the
  parsed body; when it is not, it throws \<open>Generate failed: <status>\<close>, and
  \<open>handleGenerate\<close> then displays that message and leaves the job identifier as it was.
\<close>

theorem createJob_returns_body_or_fails:
  "fst (createJob env p net) = [createJob_request env p] \<and>
   req_body (createJob_request env p) = Body_prompt p \<and>
   req_method (createJob_request env p) = ''POST'' \<and>
   req_url (createJob_request env p) = BACKEND_URL env @ js ''/generate'' \<and>
   (net (createJob_request env p) = Responded res \<longrightarrow>
      (ok res \<longrightarrow> snd (createJob env p net) = json_body res) \<and>
      (\<not> ok res \<longrightarrow>
         snd (createJob env p net) =
           Inl \<lparr>err_name = js ''Error'',
                err_message = js ''Generate failed: '' @ decimal (status res)\<rparr> \<and>
         (p = prompt a \<and> \<not> list_all is_js_whitespace p \<longrightarrow>
            jobId (fst (handleGenerate env net tb during ts a)) = jobId a \<and>
            error (fst (handleGenerate env net tb during ts a)) =
              js ''Generate failed: '' @ decimal (status res))))"
proof (intro conjI impI)
  show "fst (createJob env p net) = [createJob_request env p]"
    by (simp add: createJob_def Let_def)
  show "req_body (createJob_request env p) = Body_prompt p"
    and "req_method (createJob_request env p) = ''POST''"
    and "req_url (createJob_request env p) = BACKEND_URL env @ js ''/generate''"
    by (simp_all add: createJob_request_def)
next
  assume "net (createJob_request env p) = Responded res" "ok res"
  then show "snd (createJob env p net) = json_body res"
    by (simp add: createJob_def Let_def createJob_settle_def)
next
  assume "net (createJob_request env p) = Responded res" "\<not> ok res"
  then show "snd (createJob env p net) =
      Inl \<lparr>err_name = js ''Error'', err_message = js ''Generate failed: '' @ decimal (status res)\<rparr>"
    by (simp add: createJob_def Let_def createJob_settle_def)
next
  assume r: "net (createJob_request env p) = Responded res" and n: "\<not> ok res"
    and p: "p = prompt a \<and> \<not> list_all is_js_whitespace p"
  from p r have 1: "\<not> list_all is_js_whitespace (prompt a)"
    and 2: "net (createJob_request env (prompt a)) = Responded res" by auto
  note g = handleGenerate_not_ok [where net = net and env = env, OF 1 2 n, where tb = tb and during = during and ts = ts]
  from g show "jobId (fst (handleGenerate env net tb during ts a)) = jobId a" by simp
  from g show "error (fst (handleGenerate env net tb during ts a)) =
      js ''Generate failed: '' @ decimal (status res)" by simp
qed

theorem createJob_returns_body_or_fails_witness:
  "fst (createJob sample_env (js ''NDA'') (answering 200 (Inr (Json_object (JStr (js ''j1'')))))) =
     [\<lparr>req_url = js ''http://localhost:8000/generate'', req_method = ''POST'',
       req_content_type = ''application/json'', req_body = Body_prompt (js ''NDA'')\<rparr>] \<and>
   snd (createJob sample_env (js ''NDA'') (answering 200 (Inr (Json_object (JStr (js ''j1'')))))) =
     Inr (Json_object (JStr (js ''j1''))) \<and>
   snd (createJob sample_env (js ''NDA'') (answering 503 (Inr Json_null))) =
     Inl \<lparr>err_name = js ''Error'', err_message = js ''Generate failed: 503''\<rparr> \<and>
   jobId (fst (handleGenerate sample_env (answering 503 (Inr Json_null)) 10 [] 20
     (initial_app (js ''NDA'') []))) = JNull"
proof -
  let ?ok = "answering 200 (Inr (Json_object (JStr (js ''j1''))))"
  let ?ko = "answering 503 (Inr Json_null)"
  let ?a = "initial_app (js ''NDA'') []"
  have req: "createJob_request sample_env (js ''NDA'') =
      \<lparr>req_url = js ''http://localhost:8000/generate'', req_method = ''POST'',
       req_content_type = ''application/json'', req_body = Body_prompt (js ''NDA'')\<rparr>"
    by (simp add: createJob_request_def BACKEND_URL_def sample_env_def js_def)
  have dec: "decimal 503 = js ''503''" by (simp add: decimal_def digits.simps js_def)
  have okr: "?ok (createJob_request sample_env (js ''NDA'')) =
      Responded \<lparr>status = 200, json_body = Inr (Json_object (JStr (js ''j1'')))\<rparr>"
    by (simp add: answering_def)
  have kor: "?ko (createJob_request sample_env (js ''NDA'')) =
      Responded \<lparr>status = 503, json_body = Inr Json_null\<rparr>"
    by (simp add: answering_def)
  have ok1: "ok \<lparr>status = 200, json_body = Inr (Json_object (JStr (js ''j1'')))\<rparr>"
    by (simp add: ok_def)
  have ko1: "\<not> ok \<lparr>status = 503, json_body = Inr Json_null\<rparr>" by (simp add: ok_def)
  have pr: "js ''NDA'' = prompt ?a \<and> \<not> list_all is_js_whitespace (js ''NDA'')"
    by (simp add: initial_app_def js_def is_js_whitespace_def)
  have jid: "jobId ?a = JNull" by (simp add: initial_app_def)
  note ts = createJob_returns_body_or_fails [where net = ?ok and env = sample_env
      and p = "js ''NDA''" and a = ?a and tb = 10 and during = "[]" and ts = 20
      and res = "\<lparr>status = 200, json_body = Inr (Json_object (JStr (js ''j1'')))\<rparr>"]
  note t2 = createJob_returns_body_or_fails [where net = ?ko and env = sample_env
      and p = "js ''NDA''" and a = ?a and tb = 10 and during = "[]" and ts = 20
      and res = "\<lparr>status = 503, json_body = Inr Json_null\<rparr>"]
  from ts req have A: "fst (createJob sample_env (js ''NDA'') ?ok) =
     [\<lparr>req_url = js ''http://localhost:8000/generate'', req_method = ''POST'',
       req_content_type = ''application/json'', req_body = Body_prompt (js ''NDA'')\<rparr>]"
    by simp
  from ts okr ok1 have B: "snd (createJob sample_env (js ''NDA'') ?ok) =
     Inr (Json_object (JStr (js ''j1'')))" by simp
  from t2 kor ko1 dec have C: "snd (createJob sample_env (js ''NDA'') ?ko) =
     Inl \<lparr>err_name = js ''Error'', err_message = js ''Generate failed: 503''\<rparr>"
    by (simp add: js_def)
  from t2 kor ko1 pr jid have D: "jobId (fst (handleGenerate sample_env ?ko 10 [] 20 ?a)) = JNull"
    by simp
  from A B C D show ?thesis by (intro conjI)
qed

text \<open>
  C6. Without a job identifier \<open>handleStop\<close> returns at once: no request, the state as it
  was. With one it issues one POST to \<open>/stop\<close> carrying that identifier, and then,
  whatever becomes of the request, stops the stream manager (the EventSource it held
  is closed), clears the generating flag and sets the finishing time; the error message
  is never touched.
\<close>

theorem handleStop_cancels_and_closes:
  "(jobId a = JNull \<longrightarrow> handleStop env net now a = (a, [])) \<and>
   (truthy (jobId a) \<longrightarrow>
      handleStop env net now a =
        (a\<lparr>es := stop (es a), isGenerating := False, finishedAt := Some now\<rparr>,
         [stopJob_request env (jobId a)]) \<and>
      req_body (stopJob_request env (jobId a)) = Body_jobId (jobId a) \<and>
      req_method (stopJob_request env (jobId a)) = ''POST'' \<and>
      req_url (stopJob_request env (jobId a)) = BACKEND_URL env @ js ''/stop'' \<and>
      handleStop env net' now a = handleStop env net now a \<and>
      esRef (es (fst (handleStop env net now a))) = None \<and>
      (\<forall>i. esRef (es a) = Some i \<and> i < length (sources (es a)) \<longrightarrow>
           es_closed (sources (es (fst (handleStop env net now a))) ! i)) \<and>
      \<not> isGenerating (fst (handleStop env net now a)) \<and>
      finishedAt (fst (handleStop env net now a)) = Some now \<and>
      error (fst (handleStop env net now a)) = error a)"
proof (intro conjI impI allI)
  assume "jobId a = JNull"
  then show "handleStop env net now a = (a, [])"
    by (simp add: handleStop_def handleStop_begin_def)
next
  assume t: "truthy (jobId a)"
  show "handleStop env net now a =
        (a\<lparr>es := stop (es a), isGenerating := False, finishedAt := Some now\<rparr>,
         [stopJob_request env (jobId a)])"
    using t by (rule handleStop_truthy)
  show "handleStop env net' now a = handleStop env net now a"
    using t by (simp add: handleStop_truthy)
  show "esRef (es (fst (handleStop env net now a))) = None"
    using t by (simp add: handleStop_truthy stop_fields)
  show "\<not> isGenerating (fst (handleStop env net now a))"
    using t by (simp add: handleStop_truthy)
  show "finishedAt (fst (handleStop env net now a)) = Some now"
    using t by (simp add: handleStop_truthy)
  show "error (fst (handleStop env net now a)) = error a"
    using t by (simp add: handleStop_truthy)
next
  fix i
  assume t: "truthy (jobId a)" and i: "esRef (es a) = Some i \<and> i < length (sources (es a))"
  then show "es_closed (sources (es (fst (handleStop env net now a))) ! i)"
    by (simp add: handleStop_truthy stop_closes)
next
  show "req_body (stopJob_request env (jobId a)) = Body_jobId (jobId a)"
    and "req_method (stopJob_request env (jobId a)) = ''POST''"
    and "req_url (stopJob_request env (jobId a)) = BACKEND_URL env @ js ''/stop''"
    by (simp_all add: stopJob_request_def)
qed

theorem handleStop_cancels_and_closes_witness:
  "handleStop sample_env unreachable 9 (initial_app (js ''NDA'') []) =
     (initial_app (js ''NDA'') [], []) \<and>
   snd (handleStop sample_env unreachable 9
     (fst (handleGenerate sample_env (answering 200 (Inr (Json_object (JStr (js ''j1''))))) 10 [] 20
        (initial_app (js ''NDA'') [])))) =
     [\<lparr>req_url = js ''http://localhost:8000/stop'', req_method = ''POST'',
       req_content_type = ''application/json'', req_body = Body_jobId (JStr (js ''j1''))\<rparr>] \<and>
   es_closed (sources (es (fst (handleStop sample_env unreachable 9
     (fst (handleGenerate sample_env (answering 200 (Inr (Json_object (JStr (js ''j1''))))) 10 [] 20
        (initial_app (js ''NDA'') [])))))) ! 0) \<and>
   error (fst (handleStop sample_env unreachable 9
     (fst (handleGenerate sample_env (answering 200 (Inr (Json_object (JStr (js ''j1''))))) 10 [] 20
        (initial_app (js ''NDA'') []))))) = []"
proof -
  let ?start = "initial_app (js ''NDA'') []"
  let ?net = "answering 200 (Inr (Json_object (JStr (js ''j1''))))"
  let ?a = "fst (handleGenerate sample_env ?net 10 [] 20 ?start)"
  have 1: "\<not> list_all is_js_whitespace (prompt ?start)"
    by (simp add: initial_app_def js_def is_js_whitespace_def)
  have 2: "?net (createJob_request sample_env (prompt ?start)) =
      Responded \<lparr>status = 200, json_body = Inr (Json_object (JStr (js ''j1'')))\<rparr>"
    by (simp add: answering_def)
  have 3: "event_source_constructor sample_env (streamUrl sample_env (JStr (js ''j1''))) = None"
    by (simp add: sample_env_def accepting_def)
  have 4: "?start\<lparr>error := [], html := [], finishedAt := None, isGenerating := True,
        startedAt := Some 10\<rparr> =
      app_events [] (?start\<lparr>error := [], html := [], finishedAt := None, isGenerating := True,
        startedAt := Some 10\<rparr>)"
    by simp
  have a: "?a = ?start\<lparr>error := [], html := [], finishedAt := None, isGenerating := True,
        startedAt := Some 10, jobId := JStr (js ''j1''),
        es := fst (start (event_source_constructor sample_env)
                (streamUrl sample_env (JStr (js ''j1''))) app_handlers (es ?start))\<rparr>"
    using handleGenerate_opened [where net = ?net and env = sample_env and tb = 10 and ts = 20
        and during = "[]", OF 1 2 _ _ 3 4]
    by (simp add: ok_def)
  have null: "jobId ?start = JNull" by (simp add: initial_app_def)
  have jid: "jobId ?a = JStr (js ''j1'')" by (simp add: a)
  have tr: "truthy (jobId ?a)" by (simp only: jid) (simp add: js_def)
  have ref: "esRef (es ?a) = Some 0 \<and> 0 < length (sources (es ?a))"
    by (simp only: a) (simp add: start_new_source [where br = "event_source_constructor sample_env"
        and url = "streamUrl sample_env (JStr (js ''j1''))", OF 3] initial_app_def initial_manager_def)
  have err: "error ?a = []" by (simp add: a)
  have req: "stopJob_request sample_env (JStr (js ''j1'')) =
      \<lparr>req_url = js ''http://localhost:8000/stop'', req_method = ''POST'',
       req_content_type = ''application/json'', req_body = Body_jobId (JStr (js ''j1''))\<rparr>"
    by (simp add: stopJob_request_def BACKEND_URL_def sample_env_def js_def)
  from handleStop_cancels_and_closes [of ?start sample_env unreachable 9] null
  have A: "handleStop sample_env unreachable 9 ?start = (?start, [])" by blast
  note t = handleStop_cancels_and_closes [of ?a sample_env unreachable 9 unreachable]
  from t tr have "snd (handleStop sample_env unreachable 9 ?a) =
      [stopJob_request sample_env (jobId ?a)]" by simp
  with jid req have B: "snd (handleStop sample_env unreachable 9 ?a) =
     [\<lparr>req_url = js ''http://localhost:8000/stop'', req_method = ''POST'',
       req_content_type = ''application/json'', req_body = Body_jobId (JStr (js ''j1''))\<rparr>]"
    by simp
  from t tr ref have C: "es_closed (sources (es (fst (handleStop sample_env unreachable 9 ?a))) ! 0)"
    by blast
  from t tr have "error (fst (handleStop sample_env unreachable 9 ?a)) = error ?a" by blast
  with err have D: "error (fst (handleStop sample_env unreachable 9 ?a)) = []" by simp
  from A B C D show ?thesis by (intro conjI)
qed

text \<open>
  C7, as amended. \<open>stop\<close> after \<open>stop\<close> changes nothing, and \<open>stop\<close> never fails. With
  no EventSource open it closes nothing and leaves every EventSource as it was, but it
  does set the finished flag and empty \<open>esRef\<close>, which may still hold an EventSource
  that the browser closed: it is the identity only where the flag is set and \<open>esRef\<close>
  is empty already. Neither change has an effect on anything that follows: the same
  callbacks are called and the same EventSources exist, open or closed, whatever happens
  next.
\<close>

theorem stop_idempotent_and_safe:
  "stop (stop m) = stop m \<and>
   (open_sources m = [] \<longrightarrow>
      stop m = m\<lparr>finishedRef := True, esRef := None\<rparr> \<and>
      sources (stop m) = sources m \<and>
      (finishedRef m \<and> esRef m = None \<longrightarrow> stop m = m) \<and>
      snd (run br post (stop m)) = snd (run br post m) \<and>
      sources (fst (run br post (stop m))) = sources (fst (run br post m)))"
proof (intro conjI impI)
  show "stop (stop m) = stop m" by (rule stop_stop)
next
  assume "open_sources m = []"
  then have closed: "list_all es_closed (sources m)" by (simp only: open_sources_Nil)
  show eq: "stop m = m\<lparr>finishedRef := True, esRef := None\<rparr>"
    using closed by (rule stop_all_closed_eq)
  show "sources (stop m) = sources m" by (simp add: eq)
  have "alike m (stop m)" using closed by (rule alike_stop)
  then have after: "alike (fst (run br post m)) (fst (run br post (stop m)))"
    and same: "snd (run br post (stop m)) = snd (run br post m)"
    using alike_run [of m "stop m" br post] by simp_all
  show "snd (run br post (stop m)) = snd (run br post m)" by (rule same)
  show "sources (fst (run br post (stop m))) = sources (fst (run br post m))"
    using after by (rule alike_sources)
next
  assume "open_sources m = []" and "finishedRef m \<and> esRef m = None"
  then show "stop m = m" by (simp add: stop_None)
qed

theorem stop_idempotent_and_safe_witness:
  "open_sources (fst (run accepting [Start (js ''u'') app_handlers, Fail 0] initial_manager)) = [] \<and>
   esRef (fst (run accepting [Start (js ''u'') app_handlers, Fail 0] initial_manager)) = Some 0 \<and>
   stop (stop (fst (run accepting [Start (js ''u'') app_handlers, Fail 0] initial_manager))) =
     stop (fst (run accepting [Start (js ''u'') app_handlers, Fail 0] initial_manager)) \<and>
   stop (fst (run accepting [Start (js ''u'') app_handlers, Fail 0] initial_manager)) =
     (fst (run accepting [Start (js ''u'') app_handlers, Fail 0] initial_manager))
       \<lparr>finishedRef := True, esRef := None\<rparr> \<and>
   snd (run accepting [Start (js ''v'') app_handlers, Dispatch 1 Native_error]
     (stop (fst (run accepting [Start (js ''u'') app_handlers, Fail 0] initial_manager)))) =
     [Cb_error (JStr (js ''Streaming error'')), Cb_onerror] \<and>
   stop (fst (run accepting [Start (js ''u'') app_handlers, Dispatch 0 (Message ''done'' [])]
     initial_manager)) =
     fst (run accepting [Start (js ''u'') app_handlers, Dispatch 0 (Message ''done'' [])]
       initial_manager)"
proof -
  let ?m = "fst (run accepting [Start (js ''u'') app_handlers, Fail 0] initial_manager)"
  let ?post = "[Start (js ''v'') app_handlers, Dispatch 1 Native_error]"
  have none: "open_sources ?m = []" by code_simp
  have ref: "esRef ?m = Some 0" by code_simp
  have cbs: "snd (run accepting ?post ?m) = [Cb_error (JStr (js ''Streaming error'')), Cb_onerror]"
    by code_simp
  note t = stop_idempotent_and_safe [of ?m accepting ?post]
  from t have a: "stop (stop ?m) = stop ?m" by (rule conjunct1)
  from t none have b: "stop ?m = ?m\<lparr>finishedRef := True, esRef := None\<rparr>" by blast
  from t none have c: "snd (run accepting ?post (stop ?m)) = snd (run accepting ?post ?m)"
    by blast
  from c cbs
  have d: "snd (run accepting ?post (stop ?m)) = [Cb_error (JStr (js ''Streaming error'')), Cb_onerror]"
    by (rule trans)
  let ?d = "fst (run accepting [Start (js ''u'') app_handlers, Dispatch 0 (Message ''done'' [])]
     initial_manager)"
  have dn: "open_sources ?d = []" by code_simp
  have df: "finishedRef ?d \<and> esRef ?d = None" by code_simp
  from stop_idempotent_and_safe [of ?d accepting "[]"] dn df have e: "stop ?d = ?d" by blast
  from none ref a b d e show ?thesis by (intro conjI)
qed

text \<open>
  C7 as first stated has \<open>stop\<close> without an open stream be a no-op. On the manager as
  the hook creates it, where no stream was ever opened, \<open>stop\<close> changes the state: the
  finished flag goes from false to true. After a connection failure that made the
  browser close the EventSource, no stream is open either, and \<open>stop\<close> changes
  \<open>esRef\<close> as well, which held the closed EventSource.
\<close>

theorem stop_without_stream_counterexample:
  "esRef initial_manager = None \<and> open_sources initial_manager = [] \<and>
   stop initial_manager \<noteq> initial_manager \<and>
   \<not> finishedRef initial_manager \<and> finishedRef (stop initial_manager) \<and>
   open_sources (fst (run accepting [Start (js ''u'') app_handlers, Fail 0] initial_manager)) = [] \<and>
   esRef (fst (run accepting [Start (js ''u'') app_handlers, Fail 0] initial_manager)) = Some 0 \<and>
   esRef (stop (fst (run accepting [Start (js ''u'') app_handlers, Fail 0] initial_manager))) = None"
proof -
  have a: "esRef initial_manager = None \<and> open_sources initial_manager = [] \<and>
     stop initial_manager \<noteq> initial_manager \<and>
     \<not> finishedRef initial_manager \<and> finishedRef (stop initial_manager)"
    by (simp add: initial_manager_def stop_eq open_sources_def)
  have b: "open_sources (fst (run accepting [Start (js ''u'') app_handlers, Fail 0] initial_manager)) = []"
    by code_simp
  have c: "esRef (fst (run accepting [Start (js ''u'') app_handlers, Fail 0] initial_manager)) = Some 0"
    by code_simp
  have d: "esRef (stop (fst (run accepting [Start (js ''u'') app_handlers, Fail 0] initial_manager))) = None"
    by (rule stop_fields)
  from a b c d show ?thesis by simp
qed

text \<open>
  C8. A prompt that is empty or all whitespace makes \<open>handleGenerate\<close> set the error
  message and return: no request is issued, no stream is opened, and the displayed HTML,
  the job identifier, the generating flag and the stream manager stay as they were.
\<close>

theorem blank_prompt_is_rejected:
  assumes "list_all is_js_whitespace (prompt a)"
  shows "handleGenerate env net tb during ts a =
           (a\<lparr>error := js ''Please describe the business context first.''\<rparr>, []) \<and>
         html (fst (handleGenerate env net tb during ts a)) = html a \<and>
         jobId (fst (handleGenerate env net tb during ts a)) = jobId a \<and>
         isGenerating (fst (handleGenerate env net tb during ts a)) = isGenerating a \<and>
         es (fst (handleGenerate env net tb during ts a)) = es a"
  using handleGenerate_blank [OF assms] by simp

theorem blank_prompt_is_rejected_witness:
  "handleGenerate sample_env unreachable 10 [(15, 0, Native_error)] 20 (initial_app [0x20, 0x0A, 0x2028, 0x09] (js ''old'')) =
     ((initial_app [0x20, 0x0A, 0x2028, 0x09] (js ''old''))
        \<lparr>error := js ''Please describe the business context first.''\<rparr>, []) \<and>
   handleGenerate sample_env unreachable 10 [] 20 (initial_app [] (js ''old'')) =
     ((initial_app [] (js ''old''))
        \<lparr>error := js ''Please describe the business context first.''\<rparr>, [])"
proof -
  have 1: "list_all is_js_whitespace (prompt (initial_app [0x20, 0x0A, 0x2028, 0x09] (js ''old'')))"
    by (simp add: initial_app_def is_js_whitespace_def)
  have 2: "list_all is_js_whitespace (prompt (initial_app [] (js ''old'')))"
    by (simp add: initial_app_def)
  from blank_prompt_is_rejected [OF 1] blank_prompt_is_rejected [OF 2]
  show ?thesis by blast
qed

text \<open>
  C9. At most one EventSource is open in any state the manager can reach. \<open>start\<close>
  closes every EventSource there was before it creates the new one, and \<open>esRef\<close> no
  longer holds any of them: where the constructor returns, the new EventSource is the
  only one open and \<open>esRef\<close> holds it; where the constructor throws, \<open>start\<close> throws
  what it threw, no EventSource is open and \<open>esRef\<close> is empty.
\<close>

theorem at_most_one_event_source_open:
  assumes reach: "m = fst (run br as initial_manager)"
  shows "length (open_sources m) \<le> 1 \<and>
         list_all es_closed (take (length (sources m)) (sources (fst (start br url h m)))) \<and>
         snd (start br url h m) = br url \<and>
         open_sources (fst (start br url h m)) =
           (if br url = None then [length (sources m)] else []) \<and>
         esRef (fst (start br url h m)) =
           (if br url = None then Some (length (sources m)) else None) \<and>
         length (sources (fst (start br url h m))) =
           (if br url = None then Suc (length (sources m)) else length (sources m))"
proof -
  have so: "single_open m" unfolding reach by (rule single_open_reachable)
  have closed: "list_all es_closed (sources (stop m))" using so by (rule all_closed_stop)
  have len: "length (sources (stop m)) = length (sources m)" by (rule stop_fields)
  have old: "list_all es_closed (take (length (sources m)) (sources (fst (start br url h m))))"
  proof (cases "br url")
    case None
    with closed len show ?thesis by (simp add: start_opened)
  next
    case (Some e)
    with closed len show ?thesis by (simp add: start_thrown)
  qed
  have thrown: "snd (start br url h m) = br url"
    by (cases "br url") (simp_all add: start_opened start_thrown)
  have ref: "esRef (fst (start br url h m)) =
      (if br url = None then Some (length (sources m)) else None)"
    by (cases "br url") (simp_all add: start_opened start_thrown stop_fields)
  have size: "length (sources (fst (start br url h m))) =
      (if br url = None then Suc (length (sources m)) else length (sources m))"
    by (cases "br url") (simp_all add: start_opened start_thrown len)
  from open_sources_le_1 [OF so] old thrown open_sources_start [OF so, of br url h] ref size
  show ?thesis by blast
qed

theorem at_most_one_event_source_open_witness:
  "open_sources (fst (run strict [Start (js ''a'') app_handlers, Dispatch 0 Native_error]
      initial_manager)) = [0] \<and>
   open_sources (fst (start strict (js ''b'') app_handlers
     (fst (run strict [Start (js ''a'') app_handlers, Dispatch 0 Native_error]
        initial_manager)))) = [1] \<and>
   esRef (fst (start strict (js ''b'') app_handlers
     (fst (run strict [Start (js ''a'') app_handlers, Dispatch 0 Native_error]
        initial_manager)))) = Some 1 \<and>
   open_sources (fst (start strict (js ''http://'') app_handlers
     (fst (run strict [Start (js ''a'') app_handlers, Dispatch 0 Native_error]
        initial_manager)))) = [] \<and>
   esRef (fst (start strict (js ''http://'') app_handlers
     (fst (run strict [Start (js ''a'') app_handlers, Dispatch 0 Native_error]
        initial_manager)))) = None \<and>
   snd (start strict (js ''http://'') app_handlers
     (fst (run strict [Start (js ''a'') app_handlers, Dispatch 0 Native_error]
        initial_manager))) =
     Some \<lparr>err_name = js ''SyntaxError'', err_message = js ''The URL is invalid.''\<rparr>"
proof -
  let ?m = "fst (run strict [Start (js ''a'') app_handlers, Dispatch 0 Native_error]
      initial_manager)"
  have len: "length (sources ?m) = Suc 0" by code_simp
  have op: "open_sources ?m = [0]" by code_simp
  have acc: "strict (js ''b'') = None" by code_simp
  have rej: "strict (js ''http://'') =
      Some \<lparr>err_name = js ''SyntaxError'', err_message = js ''The URL is invalid.''\<rparr>"
    by code_simp
  note t = at_most_one_event_source_open [where br = strict and h = app_handlers
      and as = "[Start (js ''a'') app_handlers, Dispatch 0 Native_error]", OF refl]
  note tb = t [where url = "js ''b''"]
  note tr = t [where url = "js ''http://''"]
  from tb have "open_sources (fst (start strict (js ''b'') app_handlers ?m)) =
      (if strict (js ''b'') = None then [length (sources ?m)] else [])" by blast
  then have a: "open_sources (fst (start strict (js ''b'') app_handlers ?m)) = [1]"
    unfolding acc len by simp
  from tb have "esRef (fst (start strict (js ''b'') app_handlers ?m)) =
      (if strict (js ''b'') = None then Some (length (sources ?m)) else None)" by blast
  then have b: "esRef (fst (start strict (js ''b'') app_handlers ?m)) = Some 1"
    unfolding acc len by simp
  from tr have "open_sources (fst (start strict (js ''http://'') app_handlers ?m)) =
      (if strict (js ''http://'') = None then [length (sources ?m)] else [])" by blast
  then have c: "open_sources (fst (start strict (js ''http://'') app_handlers ?m)) = []"
    unfolding rej by simp
  from tr have "esRef (fst (start strict (js ''http://'') app_handlers ?m)) =
      (if strict (js ''http://'') = None then Some (length (sources ?m)) else None)" by blast
  then have d: "esRef (fst (start strict (js ''http://'') app_handlers ?m)) = None"
    unfolding rej by simp
  from tr have "snd (start strict (js ''http://'') app_handlers ?m) = strict (js ''http://'')"
    by blast
  then have e: "snd (start strict (js ''http://'') app_handlers ?m) =
     Some \<lparr>err_name = js ''SyntaxError'', err_message = js ''The URL is invalid.''\<rparr>"
    unfolding rej .
  from op a b c d e show ?thesis by (intro conjI)
qed

text \<open>
  C10. An error message once displayed is kept by every later callback and by every later
  event of the browser, and from an empty error message the first error notification
  decides what is displayed: its own message, or \<open>Streaming error\<close> (an \<open>error\<close> event
  with none) or \<open>Connection lost while streaming.\<close> (a connection error).
\<close>

theorem first_error_message_is_kept:
  "(error a \<noteq> [] \<longrightarrow>
      error (app_notify tcs a) = error a \<and> error (app_events evs a) = error a) \<and>
   (error a = [] \<and> is_error_callback c \<longrightarrow>
      error (app_notify ((t, c) # tcs) a) = notification_message c \<and>
      notification_message c \<noteq> [])"
proof (intro conjI impI)
  assume "error a \<noteq> []"
  then show "error (app_notify tcs a) = error a" by (rule error_kept_by_notify)
next
  assume "error a \<noteq> []"
  then show "error (app_events evs a) = error a" by (rule error_kept_by_events)
next
  assume h: "error a = [] \<and> is_error_callback c"
  then have 1: "error (app_callback t c a) = notification_message c"
    by (simp add: error_set_by_callback)
  from h show 2: "notification_message c \<noteq> []" by (simp add: notification_message_nonempty)
  from 1 2 error_kept_by_notify [of "app_callback t c a" tcs]
  show "error (app_notify ((t, c) # tcs) a) = notification_message c" by simp
qed

theorem first_error_message_is_kept_witness:
  "error (app_notify [(3, Cb_error JUndefined), (4, Cb_onerror), (5, Cb_error (JStr (js ''late'')))]
      (initial_app (js ''p'') [])) = js ''Streaming error'' \<and>
   error (app_notify [(3, Cb_onerror), (4, Cb_error (JStr (js ''late'')))]
      (initial_app (js ''p'') [])) = js ''Connection lost while streaming.'' \<and>
   error (app_notify [(3, Cb_error (JStr (js ''quota''))), (4, Cb_onerror)]
      (initial_app (js ''p'') [])) = js ''quota''"
proof -
  have e: "error (initial_app (js ''p'') []) = []" by (simp add: initial_app_def)
  from first_error_message_is_kept
    [where a = "initial_app (js ''p'') []" and c = "Cb_error JUndefined" and t = 3
      and tcs = "[(4, Cb_onerror), (5, Cb_error (JStr (js ''late'')))]"] e
  have 1: "error (app_notify [(3, Cb_error JUndefined), (4, Cb_onerror),
      (5, Cb_error (JStr (js ''late'')))] (initial_app (js ''p'') [])) = js ''Streaming error''"
    by simp
  from first_error_message_is_kept
    [where a = "initial_app (js ''p'') []" and c = Cb_onerror and t = 3
      and tcs = "[(4, Cb_error (JStr (js ''late'')))]"] e
  have 2: "error (app_notify [(3, Cb_onerror), (4, Cb_error (JStr (js ''late'')))]
      (initial_app (js ''p'') [])) = js ''Connection lost while streaming.''"
    by simp
  from first_error_message_is_kept
    [where a = "initial_app (js ''p'') []" and c = "Cb_error (JStr (js ''quota''))" and t = 3
      and tcs = "[(4, Cb_onerror)]"] e
  have 3: "error (app_notify [(3, Cb_error (JStr (js ''quota''))), (4, Cb_onerror)]
      (initial_app (js ''p'') [])) = js ''quota''"
    by (simp add: js_def)
  from 1 2 3 show ?thesis by (intro conjI)
qed


end
